theory Spec2Isabelle
  imports Main
begin

section \<open>Strings and the fixed gesture names\<close>

text \<open>
  Event names are JavaScript strings. A JavaScript string is represented by a HOL string
  (its encoding as bytes); the plugin compares strings, concatenates them and lowercases
  them. \<open>String.prototype.toLowerCase\<close> belongs to the JavaScript runtime, not to the plugin:
  it is the field \<open>toLowerCase\<close> of the runtime below, an arbitrary function on strings, and
  everything proved holds for whatever the built-in does.
\<close>

text \<open>
  The object literal \<open>EVENT_NAMES\<close> of the source: its own property names, in the order of
  the source. Every property has the value \<open>true\<close>; only the presence of the key is read.
\<close>

definition EVENT_NAMES :: "string list" where
  "EVENT_NAMES =
     [''pan'', ''panstart'', ''panmove'', ''panend'', ''pancancel'', ''panleft'',
      ''panright'', ''panup'', ''pandown'',
      ''pinch'', ''pinchstart'', ''pinchmove'', ''pinchend'', ''pinchcancel'', ''pinchin'',
      ''pinchout'',
      ''press'', ''pressup'',
      ''rotate'', ''rotatestart'', ''rotatemove'', ''rotateend'', ''rotatecancel'',
      ''swipe'', ''swipeleft'', ''swiperight'', ''swipeup'', ''swipedown'',
      ''tap'']"

text \<open>\<open>obj.hasOwnProperty(key)\<close> on an object literal given by its list of keys.\<close>

definition hasOwnProperty :: "string list \<Rightarrow> string \<Rightarrow> bool" where
  "hasOwnProperty keys k = (k \<in> set keys)"

text \<open>
  \<open>Array.prototype.indexOf\<close>: the first index holding the element, \<open>-1\<close> when there is none.
  On strings the strict equality of JavaScript is equality of the contents.
\<close>

fun indexOf :: "'a list \<Rightarrow> 'a \<Rightarrow> int" where
  "indexOf [] x = - 1"
| "indexOf (y # ys) x =
     (if y = x then 0 else (let i = indexOf ys x in if i < 0 then - 1 else i + 1))"

section \<open>Configuration, closures and the world\<close>

type_synonym element = nat
type_synonym handler = nat
type_synonym eventObj = nat

text \<open>
  JavaScript values as far as configuration objects hold them: booleans, numbers, strings,
  arrays, plain objects, and references to functions and classes.
\<close>

datatype jsvalue =
    JBool bool
  | JNum int
  | JStr string
  | JArr "jsvalue list"
  | JObj "(string \<times> jsvalue) list"
  | JRef nat

text \<open>An option bag: the properties of a plain object, in enumeration order.\<close>

type_synonym optbag = "(string \<times> jsvalue) list"

text \<open>
  \<open>HammerGestureConfig\<close>: \<open>events\<close> is the list of custom event names, \<open>overrides\<close> the
  object from recognizer name to option bag (its properties in the order \<open>for ... in\<close>
  enumerates them), \<open>options\<close> the optional base options.
\<close>

record HammerGestureConfig =
  events :: "string list"
  overrides :: "(string \<times> optbag) list"
  options :: "optbag option"

text \<open>
  The plugin: its configuration and whether a \<open>HAMMER_LOADER\<close> was injected
  (\<open>this.loader\<close> is truthy).
\<close>

record HammerGesturesPlugin =
  config :: HammerGestureConfig
  loader :: bool

datatype zone_ctx = CallerZone | OutsideAngular | Guarded

text \<open>
  The calls the plugin makes on the gesture engine. The engine is an external library and
  is not interpreted: the calls are recorded, each with the zone it was made in. Engine
  instances and wrapped callbacks are identified by the number they were allocated under,
  which models reference identity.
  \<^item> \<open>New mc el opts\<close> is \<open>new Hammer(element, options)\<close> returning the instance \<open>mc\<close>;
  \<^item> \<open>GetSet mc name bag\<close> is \<open>mc.get(name).set(bag)\<close> where \<open>get\<close> yielded a recognizer;
  \<^item> \<open>GetNull mc name\<close> is \<open>mc.get(name)\<close> where \<open>get\<close> yielded \<open>null\<close>;
  \<^item> \<open>On mc name cb\<close> and \<open>Off mc name cb\<close> are \<open>mc.on(name, cb)\<close> and \<open>mc.off(name, cb)\<close>.
\<close>

datatype engine_call =
    New nat element "optbag option"
  | GetSet nat string optbag
  | GetNull nat string
  | On nat string nat
  | Off nat string nat

text \<open>
  What the plugin's code does not decide: the built-in \<open>toLowerCase\<close>, and whether
  \<open>mc.get(name)\<close> yields a recognizer. The latter may depend on everything the engine has
  been asked so far (the options an instance was constructed with, the bags set before), so
  it is a function of the calls recorded so far, the instance and the name.
\<close>

record runtime =
  toLowerCase :: "string \<Rightarrow> string"
  has_recognizer :: "engine_call list \<Rightarrow> nat \<Rightarrow> string \<Rightarrow> bool"

text \<open>
  The function values the plugin creates as deregistration functions:
  \<^item> \<open>CancelRegistration r\<close> is \<open>() => { cancelRegistration = true; }\<close> of the deferred call \<open>r\<close>;
  \<^item> \<open>Noop\<close> is \<open>() => {}\<close>;
  \<^item> \<open>CallDeregister r\<close> is \<open>() => { deregister(); }\<close> of the deferred call \<open>r\<close>;
  \<^item> \<open>EngineOff mc name cb\<close> is \<open>() => mc.off(eventName, callback)\<close>.
\<close>

datatype deregister_fn =
    CancelRegistration nat
  | Noop
  | CallDeregister nat
  | EngineOff nat string nat

text \<open>
  The exceptions: \<open>HammerUndefined\<close> is \<open>new Hammer\<close> with no global \<open>Hammer\<close>,
  \<open>EngineThrew\<close> is an exception of the engine's constructor, \<open>NoRecognizer\<close> is the
  \<open>TypeError\<close> of \<open>.set\<close> called on the \<open>null\<close> that \<open>mc.get(name)\<close> yielded.
\<close>

datatype error = HammerUndefined | EngineThrew | NoRecognizer

datatype 'a result = Threw error | Returned 'a

text \<open>
  The state the plugin reads and writes.
  \<^item> \<open>Hammer\<close> is \<open>window.Hammer\<close>: \<open>None\<close> when it is falsy, otherwise the engine's
    constructor, given by the elements and options on which it returns (on the others it
    throws).
  \<^item> \<open>zone\<close> is the zone the running code is in.
  \<^item> \<open>warnings\<close> are the messages given to \<open>console.warn\<close>, oldest first.
  \<^item> \<open>engine_calls\<close> are the calls made on the engine, oldest first.
  \<^item> \<open>ninstances\<close>, \<open>ncallbacks\<close>, \<open>nregistrations\<close> count the engine instances, wrapped
    callbacks and deferred calls created so far; the next one gets that number.
  \<^item> \<open>callbacks cb\<close> is the handler captured by the wrapped callback \<open>cb\<close>.
  \<^item> \<open>cancelRegistration r\<close> and \<open>deregister r\<close> are the two local variables of the deferred
    call \<open>r\<close>, shared by its closures.
  \<^item> \<open>pending r\<close> holds what the continuations of the loader's promise of the deferred call
    \<open>r\<close> captured (element, lowercased name, handler) while that promise is not settled.
  \<^item> \<open>loader_calls\<close> counts the invocations of the loader.
  \<^item> \<open>handler_calls\<close> are the invocations of handlers: handler, event object and zone.
\<close>

record world =
  Hammer :: "(element \<Rightarrow> optbag option \<Rightarrow> bool) option"
  zone :: zone_ctx
  warnings :: "string list"
  engine_calls :: "(zone_ctx \<times> engine_call) list"
  ninstances :: nat
  ncallbacks :: nat
  nregistrations :: nat
  callbacks :: "nat \<Rightarrow> handler"
  cancelRegistration :: "nat \<Rightarrow> bool"
  deregister :: "nat \<Rightarrow> deregister_fn"
  pending :: "nat \<Rightarrow> (element \<times> string \<times> handler) option"
  loader_calls :: nat
  handler_calls :: "(handler \<times> eventObj \<times> zone_ctx) list"

definition warn :: "string \<Rightarrow> world \<Rightarrow> world" where
  "warn msg w = w\<lparr>warnings := warnings w @ [msg]\<rparr>"

definition engine :: "engine_call \<Rightarrow> world \<Rightarrow> world" where
  "engine c w = w\<lparr>engine_calls := engine_calls w @ [(zone w, c)]\<rparr>"

section \<open>supports\<close>

definition isCustomEvent :: "HammerGesturesPlugin \<Rightarrow> string \<Rightarrow> bool" where
  "isCustomEvent p eventName = (indexOf (events (config p)) eventName > - 1)"

definition not_loaded_msg :: "string \<Rightarrow> string" where
  "not_loaded_msg eventName =
     ''The '' @ [CHR 0x22] @ eventName @ [CHR 0x22] @
     '' event cannot be bound because Hammer.JS is not '' @
     ''loaded and no custom loader has been specified.''"

definition supports ::
  "runtime \<Rightarrow> HammerGesturesPlugin \<Rightarrow> string \<Rightarrow> world \<Rightarrow> bool \<times> world"
where
  "supports rt p eventName w =
     (if \<not> hasOwnProperty EVENT_NAMES (toLowerCase rt eventName) \<and> \<not> isCustomEvent p eventName
      then (False, w)
      else if Hammer w = None \<and> \<not> loader p
      then (False, warn (not_loaded_msg eventName) w)
      else (True, w))"

section \<open>The zone\<close>

text \<open>
  \<open>zone.runOutsideAngular(fn)\<close> runs \<open>fn\<close> outside the Angular zone and returns what it
  returns; \<open>zone.runGuarded(fn)\<close> runs \<open>fn\<close> inside the zone's guarded boundary. Both give the
  zone back to the caller afterwards, also when \<open>fn\<close> throws.
\<close>

definition runOutsideAngular :: "(world \<Rightarrow> 'a \<times> world) \<Rightarrow> world \<Rightarrow> 'a \<times> world" where
  "runOutsideAngular fn w =
     (case fn (w\<lparr>zone := OutsideAngular\<rparr>) of (x, w') \<Rightarrow> (x, w'\<lparr>zone := zone w\<rparr>))"

definition runGuarded :: "(world \<Rightarrow> world) \<Rightarrow> world \<Rightarrow> world" where
  "runGuarded fn w = (fn (w\<lparr>zone := Guarded\<rparr>))\<lparr>zone := zone w\<rparr>"

text \<open>Calling a handler: the handler is the caller's; its invocation is recorded.\<close>

definition call_handler :: "handler \<Rightarrow> eventObj \<Rightarrow> world \<Rightarrow> world" where
  "call_handler h eventObj w = w\<lparr>handler_calls := handler_calls w @ [(h, eventObj, zone w)]\<rparr>"

section \<open>buildHammer\<close>

text \<open>
  \<open>mc.get(name).set(bag)\<close>: when \<open>get\<close> yields \<open>null\<close>, the call of \<open>set\<close> on it throws.
\<close>

definition get_set :: "runtime \<Rightarrow> nat \<Rightarrow> string \<Rightarrow> optbag \<Rightarrow> world \<Rightarrow> unit result \<times> world" where
  "get_set rt mc name bag w =
     (if has_recognizer rt (map snd (engine_calls w)) mc name
      then (Returned (), engine (GetSet mc name bag) w)
      else (Threw NoRecognizer, engine (GetNull mc name) w))"

text \<open>
  The loop \<open>for (const eventName in this.overrides)\<close> over the properties of the object; an
  exception ends it.
\<close>

fun apply_overrides ::
  "runtime \<Rightarrow> nat \<Rightarrow> (string \<times> optbag) list \<Rightarrow> world \<Rightarrow> unit result \<times> world"
where
  "apply_overrides rt mc [] w = (Returned (), w)"
| "apply_overrides rt mc ((eventName, bag) # rest) w =
     (case get_set rt mc eventName bag w of
        (Threw e, w') \<Rightarrow> (Threw e, w')
      | (Returned u, w') \<Rightarrow> apply_overrides rt mc rest w')"

definition enable_true :: optbag where
  "enable_true = [(''enable'', JBool True)]"

text \<open>
  \<open>new Hammer(element, this.options)\<close> throws when the global \<open>Hammer\<close> is not there (it is
  not a constructor), and when the constructor itself throws. Otherwise the new instance is
  recorded under a fresh number, and the three statements that follow run until one throws.
\<close>

definition buildHammer ::
  "runtime \<Rightarrow> HammerGestureConfig \<Rightarrow> element \<Rightarrow> world \<Rightarrow> nat result \<times> world"
where
  "buildHammer rt cfg el w =
     (case Hammer w of
        None \<Rightarrow> (Threw HammerUndefined, w)
      | Some ctor \<Rightarrow>
          if \<not> ctor el (options cfg) then (Threw EngineThrew, w)
          else
            let mc = ninstances w;
                w1 = engine (New mc el (options cfg)) (w\<lparr>ninstances := mc + 1\<rparr>)
            in (case get_set rt mc ''pinch'' enable_true w1 of
                  (Threw e, w2) \<Rightarrow> (Threw e, w2)
                | (Returned u, w2) \<Rightarrow>
                    (case get_set rt mc ''rotate'' enable_true w2 of
                       (Threw e, w3) \<Rightarrow> (Threw e, w3)
                     | (Returned u, w3) \<Rightarrow>
                         (case apply_overrides rt mc (overrides cfg) w3 of
                            (Threw e, w4) \<Rightarrow> (Threw e, w4)
                          | (Returned u, w4) \<Rightarrow> (Returned mc, w4)))))"

section \<open>addEventListener\<close>

text \<open>
  The body of the function given to \<open>runOutsideAngular\<close>: build the instance, create the
  wrapped callback, register it, return the removal function.
\<close>

definition bind_listener ::
  "runtime \<Rightarrow> HammerGesturesPlugin \<Rightarrow> element \<Rightarrow> string \<Rightarrow> handler \<Rightarrow> world \<Rightarrow>
     deregister_fn result \<times> world"
where
  "bind_listener rt p el eventName h w =
     (case buildHammer rt (config p) el w of
        (Threw e, w') \<Rightarrow> (Threw e, w')
      | (Returned mc, w1) \<Rightarrow>
          let callback = ncallbacks w1;
              w2 = w1\<lparr>ncallbacks := callback + 1, callbacks := (callbacks w1)(callback := h)\<rparr>;
              w3 = engine (On mc eventName callback) w2
          in (Returned (EngineOff mc eventName callback), w3))"

text \<open>
  When Hammer is not present and a loader is given, the call is deferred: its two local
  variables are created, the loader is invoked, the continuations of its promise are kept
  in \<open>pending\<close>, and the function that executes \<open>deregister\<close> is returned.
\<close>

definition addEventListener ::
  "runtime \<Rightarrow> HammerGesturesPlugin \<Rightarrow> element \<Rightarrow> string \<Rightarrow> handler \<Rightarrow> world \<Rightarrow>
     deregister_fn result \<times> world"
where
  "addEventListener rt p el eventName0 h w =
     (let eventName = toLowerCase rt eventName0 in
      if Hammer w = None \<and> loader p then
        let r = nregistrations w;
            w1 = w\<lparr>nregistrations := r + 1,
                   cancelRegistration := (cancelRegistration w)(r := False),
                   deregister := (deregister w)(r := CancelRegistration r),
                   loader_calls := loader_calls w + 1,
                   pending := (pending w)(r := Some (el, eventName, h))\<rparr>
        in (Returned (CallDeregister r), w1)
      else runOutsideAngular (bind_listener rt p el eventName h) w)"

section \<open>Running the closures\<close>

text \<open>
  Calling a deregistration function. \<open>CallDeregister r\<close> calls whatever the variable
  \<open>deregister\<close> of the deferred call \<open>r\<close> holds at that moment; a chain of such calls that
  never ends is the value \<open>None\<close>.
\<close>

partial_function (option) invoke :: "deregister_fn \<Rightarrow> world \<Rightarrow> world option" where
  "invoke d w =
     (case d of
        CancelRegistration r \<Rightarrow> Some (w\<lparr>cancelRegistration := (cancelRegistration w)(r := True)\<rparr>)
      | Noop \<Rightarrow> Some w
      | CallDeregister r \<Rightarrow> invoke (deregister w r) w
      | EngineOff mc eventName callback \<Rightarrow> Some (engine (Off mc eventName callback) w))"

text \<open>
  The wrapped callback \<open>function(eventObj) { zone.runGuarded(function() { handler(eventObj); }); }\<close>.
\<close>

definition callback_fn :: "nat \<Rightarrow> eventObj \<Rightarrow> world \<Rightarrow> world" where
  "callback_fn cb eventObj w = runGuarded (call_handler (callbacks w cb) eventObj) w"

section \<open>The loader's promise\<close>

definition still_absent_msg :: string where
  "still_absent_msg = ''The custom HAMMER_LOADER completed, but Hammer.JS is not present.''"

definition loader_failed_msg :: "string \<Rightarrow> string" where
  "loader_failed_msg eventName =
     ''The '' @ [CHR 0x22] @ eventName @ [CHR 0x22] @
     '' event cannot be bound because the custom '' @
     ''Hammer.JS loader failed.''"

datatype outcome = Resolved | Rejected

text \<open>The function given to \<open>.catch\<close>, of the deferred call \<open>r\<close>.\<close>

definition on_rejected :: "nat \<Rightarrow> string \<Rightarrow> world \<Rightarrow> world" where
  "on_rejected r eventName w =
     (warn (loader_failed_msg eventName) w)\<lparr>deregister := (deregister w)(r := Noop)\<rparr>"

text \<open>
  The function given to \<open>.then\<close>, of the deferred call \<open>r\<close>. It is followed by \<open>.catch\<close>, so
  an exception of the inner \<open>addEventListener\<close> runs the rejection function as well.
\<close>

definition on_resolved ::
  "runtime \<Rightarrow> HammerGesturesPlugin \<Rightarrow> nat \<Rightarrow> element \<Rightarrow> string \<Rightarrow> handler \<Rightarrow> world \<Rightarrow> world"
where
  "on_resolved rt p r el eventName h w =
     (if Hammer w = None then
        (warn still_absent_msg w)\<lparr>deregister := (deregister w)(r := Noop)\<rparr>
      else if \<not> cancelRegistration w r then
        (case addEventListener rt p el eventName h w of
           (Returned d, w') \<Rightarrow> w'\<lparr>deregister := (deregister w')(r := d)\<rparr>
         | (Threw e, w') \<Rightarrow> on_rejected r eventName w')
      else w)"

text \<open>
  The promise of the deferred call \<open>r\<close> settles. A promise settles once: when nothing is
  pending for \<open>r\<close>, nothing happens.
\<close>

definition settle ::
  "runtime \<Rightarrow> HammerGesturesPlugin \<Rightarrow> nat \<Rightarrow> outcome \<Rightarrow> world \<Rightarrow> world"
where
  "settle rt p r out w =
     (case pending w r of
        None \<Rightarrow> w
      | Some (el, eventName, h) \<Rightarrow>
          let w0 = w\<lparr>pending := (pending w)(r := None)\<rparr> in
          (case out of
             Resolved \<Rightarrow> on_resolved rt p r el eventName h w0
           | Rejected \<Rightarrow> on_rejected r eventName w0))"

section \<open>The engine's dispatch and the environment\<close>

text \<open>
  What the plugin relies on from an engine instance: it keeps, per event name, the
  callbacks given to \<open>on\<close> and not taken back by \<open>off\<close>, and an event it emits under a name
  calls each of them once with the event object. \<open>listeners tr mc name\<close> reads that table
  off the recorded calls.
\<close>

fun listener_step :: "nat \<Rightarrow> string \<Rightarrow> nat list \<Rightarrow> engine_call \<Rightarrow> nat list" where
  "listener_step mc name ls (On m n cb) = (if m = mc \<and> n = name then ls @ [cb] else ls)"
| "listener_step mc name ls (Off m n cb) = (if m = mc \<and> n = name then remove1 cb ls else ls)"
| "listener_step mc name ls (New m el opts) = ls"
| "listener_step mc name ls (GetSet m n bag) = ls"
| "listener_step mc name ls (GetNull m n) = ls"

definition listeners :: "(zone_ctx \<times> engine_call) list \<Rightarrow> nat \<Rightarrow> string \<Rightarrow> nat list" where
  "listeners tr mc name = foldl (listener_step mc name) [] (map snd tr)"

definition emit :: "nat \<Rightarrow> string \<Rightarrow> eventObj \<Rightarrow> world \<Rightarrow> world" where
  "emit mc name eventObj w =
     fold (\<lambda>cb. callback_fn cb eventObj) (listeners (engine_calls w) mc name) w"

text \<open>
  Everything that can happen around one call: the host asks \<open>supports\<close>, adds a listener or
  calls a deregistration function, a loader's promise settles, the engine's script installs
  or removes the global, the engine emits an event.
\<close>

datatype action =
    AskSupports string
  | AddListener element string handler
  | Invoke deregister_fn
  | Settle nat outcome
  | SetHammer "(element \<Rightarrow> optbag option \<Rightarrow> bool) option"
  | Emit nat string eventObj

fun step :: "runtime \<Rightarrow> HammerGesturesPlugin \<Rightarrow> action \<Rightarrow> world \<Rightarrow> world option" where
  "step rt p (AskSupports name) w = Some (snd (supports rt p name w))"
| "step rt p (AddListener el name h) w = Some (snd (addEventListener rt p el name h w))"
| "step rt p (Invoke d) w = invoke d w"
| "step rt p (Settle r out) w = Some (settle rt p r out w)"
| "step rt p (SetHammer H) w = Some (w\<lparr>Hammer := H\<rparr>)"
| "step rt p (Emit mc name eventObj) w = Some (emit mc name eventObj w)"

fun run :: "runtime \<Rightarrow> HammerGesturesPlugin \<Rightarrow> action list \<Rightarrow> world \<Rightarrow> world option" where
  "run rt p [] w = Some w"
| "run rt p (a # as) w =
     (case step rt p a w of None \<Rightarrow> None | Some w' \<Rightarrow> run rt p as w')"

text \<open>
  The lookups \<open>buildHammer\<close> makes after constructing the instance, with the bags it sets,
  in order; and whether each of a list of lookups yields a recognizer when they are made one
  after the other, starting after the recorded calls \<open>tr\<close>.
\<close>

definition lookups :: "HammerGestureConfig \<Rightarrow> (string \<times> optbag) list" where
  "lookups cfg = (''pinch'', enable_true) # (''rotate'', enable_true) # overrides cfg"

fun lookups_found :: "runtime \<Rightarrow> nat \<Rightarrow> (string \<times> optbag) list \<Rightarrow> engine_call list \<Rightarrow> bool" where
  "lookups_found rt mc [] tr = True"
| "lookups_found rt mc ((n, bag) # rest) tr =
     (has_recognizer rt tr mc n \<and> lookups_found rt mc rest (tr @ [GetSet mc n bag]))"

text \<open>
  \<open>builds rt cfg el w\<close>: in the world \<open>w\<close> the engine is loaded, its constructor returns for the
  element and the base options, and every lookup of \<open>buildHammer\<close> yields a recognizer.
\<close>

definition builds :: "runtime \<Rightarrow> HammerGestureConfig \<Rightarrow> element \<Rightarrow> world \<Rightarrow> bool" where
  "builds rt cfg el w =
     (case Hammer w of
        None \<Rightarrow> False
      | Some ctor \<Rightarrow>
          ctor el (options cfg) \<and>
          lookups_found rt (ninstances w) (lookups cfg)
            (map snd (engine_calls w) @ [New (ninstances w) el (options cfg)]))"

text \<open>
  The calls \<open>buildHammer\<close> makes on the instance \<open>mc\<close> it constructs for the element when it
  returns, in order.
\<close>

definition builder_calls :: "HammerGestureConfig \<Rightarrow> nat \<Rightarrow> element \<Rightarrow> engine_call list" where
  "builder_calls cfg mc el =
     [New mc el (options cfg), GetSet mc ''pinch'' enable_true, GetSet mc ''rotate'' enable_true] @
     map (\<lambda>(n, bag). GetSet mc n bag) (overrides cfg)"

text \<open>
  The instance a recorded call is about. In a world that grew out of calls of the plugin,
  no recorded call is about an instance that is still to be constructed.
\<close>

fun instance_of :: "engine_call \<Rightarrow> nat" where
  "instance_of (New mc el opts) = mc"
| "instance_of (GetSet mc n bag) = mc"
| "instance_of (GetNull mc n) = mc"
| "instance_of (On mc n cb) = mc"
| "instance_of (Off mc n cb) = mc"

definition instances_known :: "world \<Rightarrow> bool" where
  "instances_known w = list_all (\<lambda>c. instance_of (snd c) < ninstances w) (engine_calls w)"

text \<open>
  When \<open>buildHammer\<close> does not return, it has changed nothing but the count of instances and
  the recorded calls, and the calls it added are about the instance it set out to build and
  are neither \<open>on\<close> nor \<open>off\<close>.
\<close>

definition build_calls_only :: "nat \<Rightarrow> engine_call list \<Rightarrow> bool" where
  "build_calls_only mc cs =
     (\<forall>c \<in> set cs. instance_of c = mc \<and> (\<forall>m n ls. listener_step m n ls c = ls))"

text \<open>
  The removal a deregistration function performs in a world, when the call it belongs to is
  bound there: the instance, the name and the callback it gives to \<open>off\<close>.
\<close>

definition removal :: "deregister_fn \<Rightarrow> world \<Rightarrow> (nat \<times> string \<times> nat) option" where
  "removal d w =
     (case d of
        EngineOff mc n cb \<Rightarrow> Some (mc, n, cb)
      | CallDeregister r \<Rightarrow>
          (case deregister w r of EngineOff mc n cb \<Rightarrow> Some (mc, n, cb) | _ \<Rightarrow> None)
      | _ \<Rightarrow> None)"

text \<open>
  The shape of the two variables of a deferred call \<open>r\<close>: while its promise is unsettled,
  \<open>deregister\<close> is the cancelling function of \<open>r\<close>; afterwards it is that function, the empty
  function or a removal.
\<close>

definition registration_inv :: "nat \<Rightarrow> world \<Rightarrow> bool" where
  "registration_inv r w =
     (r < nregistrations w \<and>
      (case pending w r of
         Some t \<Rightarrow> deregister w r = CancelRegistration r
       | None \<Rightarrow>
           (case deregister w r of
              CancelRegistration r' \<Rightarrow> r' = r
            | CallDeregister r' \<Rightarrow> False
            | Noop \<Rightarrow> True
            | EngineOff mc n cb \<Rightarrow> True)))"

section \<open>Concrete values\<close>

text \<open>
  A lowercasing function for the examples: it folds the letters \<open>A\<close> to \<open>Z\<close>, as the built-in
  does on the ASCII names the examples use. The example runtime uses it, and its instances
  have the recognizers of the names listed, whatever was asked before.
\<close>

definition lower_char :: "char \<Rightarrow> char" where
  "lower_char c =
     (let n = (of_char c :: nat) in if 65 \<le> n \<and> n \<le> 90 then char_of (n + 32) else c)"

definition ascii_lower :: "string \<Rightarrow> string" where
  "ascii_lower s = map lower_char s"

definition recognizer_names :: "string list" where
  "recognizer_names = [''tap'', ''doubletap'', ''press'', ''pan'', ''swipe'', ''pinch'', ''rotate'']"

definition runtime0 :: runtime where
  "runtime0 =
     \<lparr>toLowerCase = ascii_lower,
      has_recognizer = (\<lambda>tr mc name. name \<in> set recognizer_names)\<rparr>"

text \<open>A world in which nothing has happened yet and the engine is not loaded.\<close>

definition world0 :: world where
  "world0 =
     \<lparr>Hammer = None, zone = CallerZone, warnings = [], engine_calls = [],
      ninstances = 0, ncallbacks = 0, nregistrations = 0,
      callbacks = (\<lambda>_. 0), cancelRegistration = (\<lambda>_. False), deregister = (\<lambda>_. Noop),
      pending = (\<lambda>_. None), loader_calls = 0, handler_calls = []\<rparr>"

text \<open>The same world with an engine whose constructor always returns.\<close>

definition world1 :: world where
  "world1 = world0\<lparr>Hammer := Some (\<lambda>_ _. True)\<rparr>"

definition config0 :: HammerGestureConfig where
  "config0 =
     \<lparr>events = [''MyEvent''],
      overrides = [(''swipe'', [(''velocity'', JNum 1)]), (''pinch'', [(''enable'', JBool False)])],
      options = None\<rparr>"

text \<open>
  A configuration whose first override is keyed by an event name for which the instance
  has no recognizer.
\<close>

definition config_panleft :: HammerGestureConfig where
  "config_panleft =
     \<lparr>events = [],
      overrides = [(''panleft'', [(''threshold'', JNum 5)]), (''swipe'', [(''velocity'', JNum 1)])],
      options = None\<rparr>"

definition plugin_with_loader :: HammerGesturesPlugin where
  "plugin_with_loader = \<lparr>config = config0, loader = True\<rparr>"

definition plugin_no_loader :: HammerGesturesPlugin where
  "plugin_no_loader = \<lparr>config = config0, loader = False\<rparr>"

text \<open>
  A call deferred in the empty world, and the same world after the engine's script has
  installed the global.
\<close>

definition world_deferred :: world where
  "world_deferred = snd (addEventListener runtime0 plugin_with_loader 5 ''Tap'' 7 world0)"

definition world_loaded :: world where
  "world_loaded = world_deferred\<lparr>Hammer := Some (\<lambda>_ _. True)\<rparr>"

text \<open>
  The deferred call cancelled by its deregistration function, and that world after the
  engine's script has installed the global.
\<close>

definition world_cancelled :: world where
  "world_cancelled =
     world_deferred\<lparr>cancelRegistration := (cancelRegistration world_deferred)(0 := True)\<rparr>"

definition world_cancelled_loaded :: world where
  "world_cancelled_loaded = world_cancelled\<lparr>Hammer := Some (\<lambda>_ _. True)\<rparr>"

section \<open>Basic facts\<close>

subsection \<open>Names\<close>

lemma indexOf_gt: "(indexOf xs x > - 1) = (x \<in> set xs)"
proof -
  have "(indexOf xs x > - 1) = (x \<in> set xs) \<and> indexOf xs x \<ge> - 1"
    by (induction xs) (auto simp: Let_def)
  then show ?thesis by simp
qed

lemma isCustomEvent_iff: "isCustomEvent p n = (n \<in> set (events (config p)))"
  by (simp add: isCustomEvent_def indexOf_gt)

lemma warn_neq: "warn m w \<noteq> w"
proof
  assume "warn m w = w"
  then have "warnings (warn m w) = warnings w" by simp
  then show False by (simp add: warn_def)
qed

lemma supports_first_test:
  "(supports rt p eventName w \<noteq> (False, w)) =
     (toLowerCase rt eventName \<in> set EVENT_NAMES \<or> eventName \<in> set (events (config p)))"
  by (auto simp: supports_def hasOwnProperty_def isCustomEvent_iff warn_neq)

lemma get_set_found:
  "has_recognizer rt (map snd (engine_calls w)) mc n \<Longrightarrow>
   get_set rt mc n bag w =
     (Returned (), w\<lparr>engine_calls := engine_calls w @ [(zone w, GetSet mc n bag)]\<rparr>)"
  by (simp add: get_set_def engine_def)

lemma get_set_missing:
  "\<not> has_recognizer rt (map snd (engine_calls w)) mc n \<Longrightarrow>
   get_set rt mc n bag w =
     (Threw NoRecognizer, w\<lparr>engine_calls := engine_calls w @ [(zone w, GetNull mc n)]\<rparr>)"
  by (simp add: get_set_def engine_def)

lemma apply_overrides_found:
  "lookups_found rt mc ovs (map snd (engine_calls w)) \<Longrightarrow>
   apply_overrides rt mc ovs w =
     (Returned (),
      w\<lparr>engine_calls := engine_calls w @ map (\<lambda>(n, bag). (zone w, GetSet mc n bag)) ovs\<rparr>)"
proof (induction ovs arbitrary: w)
  case Nil
  then show ?case by simp
next
  case (Cons a ovs)
  obtain n bag where a: "a = (n, bag)" by (cases a)
  let ?w' = "w\<lparr>engine_calls := engine_calls w @ [(zone w, GetSet mc n bag)]\<rparr>"
  from Cons.prems a have h: "has_recognizer rt (map snd (engine_calls w)) mc n"
    and f: "lookups_found rt mc ovs (map snd (engine_calls ?w'))" by simp_all
  from Cons.IH[OF f] show ?case by (simp add: a get_set_found[OF h])
qed

lemma apply_overrides_missing:
  "\<not> lookups_found rt mc ovs (map snd (engine_calls w)) \<Longrightarrow>
   \<exists>k<length ovs.
     lookups_found rt mc (take k ovs) (map snd (engine_calls w)) \<and>
     \<not> has_recognizer rt
         (map snd (engine_calls w) @ map (\<lambda>(n, bag). GetSet mc n bag) (take k ovs))
         mc (fst (ovs ! k)) \<and>
     apply_overrides rt mc ovs w =
       (Threw NoRecognizer,
        w\<lparr>engine_calls := engine_calls w @
            map (Pair (zone w))
              (map (\<lambda>(n, bag). GetSet mc n bag) (take k ovs) @ [GetNull mc (fst (ovs ! k))])\<rparr>)"
proof (induction ovs arbitrary: w)
  case Nil
  then show ?case by simp
next
  case (Cons a ovs)
  obtain n bag where a: "a = (n, bag)" by (cases a)
  show ?case
  proof (cases "has_recognizer rt (map snd (engine_calls w)) mc n")
    case False
    then have "lookups_found rt mc (take 0 (a # ovs)) (map snd (engine_calls w)) \<and>
      \<not> has_recognizer rt
         (map snd (engine_calls w) @ map (\<lambda>(n, bag). GetSet mc n bag) (take 0 (a # ovs)))
         mc (fst ((a # ovs) ! 0)) \<and>
      apply_overrides rt mc (a # ovs) w =
       (Threw NoRecognizer,
        w\<lparr>engine_calls := engine_calls w @
            map (Pair (zone w))
              (map (\<lambda>(n, bag). GetSet mc n bag) (take 0 (a # ovs)) @
               [GetNull mc (fst ((a # ovs) ! 0))])\<rparr>)"
      by (simp add: a get_set_missing)
    then show ?thesis by (intro exI[of _ 0]) simp
  next
    case True
    let ?w' = "w\<lparr>engine_calls := engine_calls w @ [(zone w, GetSet mc n bag)]\<rparr>"
    from Cons.prems a True have "\<not> lookups_found rt mc ovs (map snd (engine_calls ?w'))"
      by simp
    from Cons.IH[OF this] obtain k where k: "k < length ovs"
      "lookups_found rt mc (take k ovs) (map snd (engine_calls ?w'))"
      "\<not> has_recognizer rt
         (map snd (engine_calls ?w') @ map (\<lambda>(n, bag). GetSet mc n bag) (take k ovs))
         mc (fst (ovs ! k))"
      "apply_overrides rt mc ovs ?w' =
       (Threw NoRecognizer,
        ?w'\<lparr>engine_calls := engine_calls ?w' @
            map (Pair (zone ?w'))
              (map (\<lambda>(n, bag). GetSet mc n bag) (take k ovs) @ [GetNull mc (fst (ovs ! k))])\<rparr>)"
      by blast
    have "lookups_found rt mc (take (Suc k) (a # ovs)) (map snd (engine_calls w)) \<and>
      \<not> has_recognizer rt
         (map snd (engine_calls w) @ map (\<lambda>(n, bag). GetSet mc n bag) (take (Suc k) (a # ovs)))
         mc (fst ((a # ovs) ! Suc k)) \<and>
      apply_overrides rt mc (a # ovs) w =
       (Threw NoRecognizer,
        w\<lparr>engine_calls := engine_calls w @
            map (Pair (zone w))
              (map (\<lambda>(n, bag). GetSet mc n bag) (take (Suc k) (a # ovs)) @
               [GetNull mc (fst ((a # ovs) ! Suc k))])\<rparr>)"
      using k(2,3,4) True by (simp add: a get_set_found)
    with k(1) show ?thesis by (intro exI[of _ "Suc k"]) simp
  qed
qed

subsection \<open>The operations in closed form\<close>

lemma buildHammer_as_lookups:
  assumes "Hammer w = Some ctor" and "ctor el (options cfg)"
  shows "buildHammer rt cfg el w =
     (case apply_overrides rt (ninstances w) (lookups cfg)
             (w\<lparr>ninstances := ninstances w + 1,
                engine_calls := engine_calls w @ [(zone w, New (ninstances w) el (options cfg))]\<rparr>) of
        (Threw e, w') \<Rightarrow> (Threw e, w')
      | (Returned u, w') \<Rightarrow> (Returned (ninstances w), w'))"
  using assms
  by (simp add: buildHammer_def lookups_def Let_def engine_def split: prod.splits result.splits)

lemma buildHammer_ok:
  assumes "builds rt cfg el w"
  shows "buildHammer rt cfg el w =
     (Returned (ninstances w),
      w\<lparr>ninstances := ninstances w + 1,
        engine_calls := engine_calls w @
          map (Pair (zone w)) (builder_calls cfg (ninstances w) el)\<rparr>)"
proof -
  from assms obtain ctor where c: "Hammer w = Some ctor" "ctor el (options cfg)"
    and f: "lookups_found rt (ninstances w) (lookups cfg)
            (map snd (engine_calls w) @ [New (ninstances w) el (options cfg)])"
    by (auto simp: builds_def split: option.splits)
  let ?w1 = "w\<lparr>ninstances := ninstances w + 1,
                engine_calls := engine_calls w @ [(zone w, New (ninstances w) el (options cfg))]\<rparr>"
  from f have "lookups_found rt (ninstances w) (lookups cfg) (map snd (engine_calls ?w1))"
    by simp
  from apply_overrides_found[OF this] show ?thesis
    by (simp add: buildHammer_as_lookups[OF c] builder_calls_def lookups_def case_prod_unfold
        comp_def)
qed

lemma buildHammer_throws:
  assumes "\<not> builds rt cfg el w"
  shows "\<exists>e n' cs. buildHammer rt cfg el w =
           (Threw e, w\<lparr>ninstances := n', engine_calls := engine_calls w @ map (Pair (zone w)) cs\<rparr>) \<and>
         ninstances w \<le> n' \<and> (cs \<noteq> [] \<longrightarrow> ninstances w < n') \<and>
         build_calls_only (ninstances w) cs"
proof (cases "Hammer w")
  case None
  then have "buildHammer rt cfg el w =
      (Threw HammerUndefined,
       w\<lparr>ninstances := ninstances w, engine_calls := engine_calls w @ map (Pair (zone w)) []\<rparr>)"
    by (simp add: buildHammer_def)
  then show ?thesis by (intro exI conjI) (assumption, simp_all add: build_calls_only_def)
next
  case (Some ctor)
  show ?thesis
  proof (cases "ctor el (options cfg)")
    case False
    with Some have "buildHammer rt cfg el w =
      (Threw EngineThrew,
       w\<lparr>ninstances := ninstances w, engine_calls := engine_calls w @ map (Pair (zone w)) []\<rparr>)"
      by (simp add: buildHammer_def)
    then show ?thesis by (intro exI conjI) (assumption, simp_all add: build_calls_only_def)
  next
    case True
    let ?mc = "ninstances w"
    let ?w1 = "w\<lparr>ninstances := ?mc + 1,
                engine_calls := engine_calls w @ [(zone w, New ?mc el (options cfg))]\<rparr>"
    from assms Some True
    have "\<not> lookups_found rt ?mc (lookups cfg) (map snd (engine_calls ?w1))"
      by (simp add: builds_def)
    from apply_overrides_missing[OF this] obtain k where
      k: "apply_overrides rt ?mc (lookups cfg) ?w1 =
       (Threw NoRecognizer,
        ?w1\<lparr>engine_calls := engine_calls ?w1 @
            map (Pair (zone ?w1))
              (map (\<lambda>(n, bag). GetSet ?mc n bag) (take k (lookups cfg)) @
               [GetNull ?mc (fst (lookups cfg ! k))])\<rparr>)"
      by blast
    let ?cs = "New ?mc el (options cfg) #
      map (\<lambda>(n, bag). GetSet ?mc n bag) (take k (lookups cfg)) @
      [GetNull ?mc (fst (lookups cfg ! k))]"
    have "buildHammer rt cfg el w =
      (Threw NoRecognizer,
       w\<lparr>ninstances := ?mc + 1, engine_calls := engine_calls w @ map (Pair (zone w)) ?cs\<rparr>)"
      using k by (simp add: buildHammer_as_lookups[OF Some True])
    moreover have "build_calls_only ?mc ?cs"
      by (auto simp: build_calls_only_def)
    ultimately show ?thesis by (intro exI conjI) (assumption, simp_all)
  qed
qed

lemma buildHammer_returns_iff:
  "(\<exists>mc. fst (buildHammer rt cfg el w) = Returned mc) = builds rt cfg el w"
proof (cases "builds rt cfg el w")
  case True
  then show ?thesis by (simp add: buildHammer_ok)
next
  case False
  from buildHammer_throws[OF this] False show ?thesis by auto
qed

lemma builds_zone [simp]: "builds rt cfg el (w\<lparr>zone := z\<rparr>) = builds rt cfg el w"
  by (simp add: builds_def split: option.splits)

lemma builds_pending [simp]: "builds rt cfg el (w\<lparr>pending := q\<rparr>) = builds rt cfg el w"
  by (simp add: builds_def split: option.splits)

lemma builds_Hammer: "builds rt cfg el w \<Longrightarrow> Hammer w \<noteq> None"
  by (auto simp: builds_def split: option.splits)

lemma builder_calls_explicit:
  "builder_calls cfg mc el =
     [New mc el (options cfg),
      GetSet mc ''pinch'' [(''enable'', JBool True)],
      GetSet mc ''rotate'' [(''enable'', JBool True)]] @
     map (\<lambda>(eventName, bag). GetSet mc eventName bag) (overrides cfg)"
  by (simp add: builder_calls_def enable_true_def)

lemma instance_of_builder_calls:
  "c \<in> set (builder_calls cfg mc el) \<Longrightarrow> instance_of c = mc"
  by (auto simp: builder_calls_def)

lemma addEventListener_bound:
  assumes "builds rt (config p) el w"
  shows "addEventListener rt p el name h w =
     (Returned (EngineOff (ninstances w) (toLowerCase rt name) (ncallbacks w)),
      w\<lparr>ninstances := ninstances w + 1,
        ncallbacks := ncallbacks w + 1,
        callbacks := (callbacks w)(ncallbacks w := h),
        engine_calls := engine_calls w @
          map (Pair OutsideAngular)
            (builder_calls (config p) (ninstances w) el @
             [On (ninstances w) (toLowerCase rt name) (ncallbacks w)])\<rparr>)"
proof -
  from assms have b: "builds rt (config p) el (w\<lparr>zone := OutsideAngular\<rparr>)" by simp
  from builds_Hammer[OF assms] show ?thesis
    by (simp add: addEventListener_def runOutsideAngular_def bind_listener_def
        buildHammer_ok[OF b] Let_def engine_def)
qed

lemma addEventListener_throw1:
  "Hammer w = None \<Longrightarrow> \<not> loader p \<Longrightarrow>
   addEventListener rt p el name h w = (Threw HammerUndefined, w)"
  by (simp add: addEventListener_def runOutsideAngular_def bind_listener_def buildHammer_def)

lemma addEventListener_throws:
  assumes "Hammer w \<noteq> None \<or> \<not> loader p" and "\<not> builds rt (config p) el w"
  shows "\<exists>e n' cs. addEventListener rt p el name h w =
           (Threw e,
            w\<lparr>ninstances := n', engine_calls := engine_calls w @ map (Pair OutsideAngular) cs\<rparr>) \<and>
         ninstances w \<le> n' \<and> (cs \<noteq> [] \<longrightarrow> ninstances w < n') \<and>
         build_calls_only (ninstances w) cs"
proof -
  let ?w = "w\<lparr>zone := OutsideAngular\<rparr>"
  from assms(2) have "\<not> builds rt (config p) el ?w" by simp
  from buildHammer_throws[OF this] obtain e n' cs where
    b: "buildHammer rt (config p) el ?w =
           (Threw e, ?w\<lparr>ninstances := n', engine_calls := engine_calls ?w @ map (Pair (zone ?w)) cs\<rparr>)"
    and r: "ninstances ?w \<le> n'" "cs \<noteq> [] \<longrightarrow> ninstances ?w < n'"
      "build_calls_only (ninstances ?w) cs"
    by blast
  from assms(1) b have "addEventListener rt p el name h w =
           (Threw e,
            w\<lparr>ninstances := n', engine_calls := engine_calls w @ map (Pair OutsideAngular) cs\<rparr>)"
    by (auto simp: addEventListener_def runOutsideAngular_def bind_listener_def)
  with r show ?thesis by (intro exI conjI) (assumption, simp_all)
qed

lemma addEventListener_deferred:
  "Hammer w = None \<Longrightarrow> loader p \<Longrightarrow>
   addEventListener rt p el name h w =
     (Returned (CallDeregister (nregistrations w)),
      w\<lparr>nregistrations := nregistrations w + 1,
        cancelRegistration := (cancelRegistration w)(nregistrations w := False),
        deregister := (deregister w)(nregistrations w := CancelRegistration (nregistrations w)),
        loader_calls := loader_calls w + 1,
        pending := (pending w)(nregistrations w := Some (el, toLowerCase rt name, h))\<rparr>)"
  by (simp add: addEventListener_def Let_def)

text \<open>A call that returns was deferred or has built its instance.\<close>

lemma addEventListener_returned:
  assumes "fst (addEventListener rt p el name h w) = Returned d"
  shows "(Hammer w = None \<and> loader p \<and> d = CallDeregister (nregistrations w)) \<or>
         (builds rt (config p) el w \<and>
          d = EngineOff (ninstances w) (toLowerCase rt name) (ncallbacks w))"
proof (cases "builds rt (config p) el w")
  case True
  with assms show ?thesis by (simp add: addEventListener_bound)
next
  case False
  show ?thesis
  proof (cases "Hammer w = None \<and> loader p")
    case True
    with assms show ?thesis by (simp add: addEventListener_deferred)
  next
    case False
    then have "Hammer w \<noteq> None \<or> \<not> loader p" by auto
    from addEventListener_throws[OF this \<open>\<not> builds rt (config p) el w\<close>, of name h] assms
    show ?thesis by auto
  qed
qed

subsection \<open>Calling deregistration functions and callbacks\<close>

lemma invoke_Cancel:
  "invoke (CancelRegistration r) w =
     Some (w\<lparr>cancelRegistration := (cancelRegistration w)(r := True)\<rparr>)"
  by (subst invoke.simps) simp

lemma invoke_Noop: "invoke Noop w = Some w"
  by (subst invoke.simps) simp

lemma invoke_EngineOff: "invoke (EngineOff mc n cb) w = Some (engine (Off mc n cb) w)"
  by (subst invoke.simps) simp

lemma invoke_CallDeregister: "invoke (CallDeregister r) w = invoke (deregister w r) w"
  by (subst invoke.simps) simp

lemma invoke_handle_bound:
  "deregister w r = EngineOff mc n cb \<Longrightarrow>
   invoke (CallDeregister r) w = Some (w\<lparr>engine_calls := engine_calls w @ [(zone w, Off mc n cb)]\<rparr>)"
  by (simp add: invoke_CallDeregister invoke_EngineOff engine_def)

lemma invoke_frame:
  "invoke d w = Some w' \<Longrightarrow>
     w' = w\<lparr>cancelRegistration := cancelRegistration w', engine_calls := engine_calls w'\<rparr> \<and>
     (\<forall>r. cancelRegistration w r \<longrightarrow> cancelRegistration w' r) \<and>
     (\<exists>offs. engine_calls w' = engine_calls w @ offs \<and>
        (\<forall>c \<in> set offs. \<exists>mc n cb. c = (zone w, Off mc n cb)))"
proof (induction d w w' rule: invoke.raw_induct[rotated 1, consumes 1])
  case (1 f d w y)
  show ?case
  proof (cases d)
    case (CallDeregister r)
    with 1(2) have "f (deregister w r) w = Some y" by simp
    then show ?thesis by (rule 1(1))
  next
    case (CancelRegistration r)
    with 1(2) have "y = w\<lparr>cancelRegistration := (cancelRegistration w)(r := True)\<rparr>" by simp
    then show ?thesis by (cases w) (simp add: fun_eq_iff)
  next
    case Noop
    with 1(2) have "y = w" by simp
    then show ?thesis by simp
  next
    case (EngineOff mc n cb)
    with 1(2) have "y = w\<lparr>engine_calls := engine_calls w @ [(zone w, Off mc n cb)]\<rparr>"
      by (simp add: engine_def)
    then show ?thesis by simp
  qed
qed

lemma callback_fn_eq:
  "callback_fn cb e w = w\<lparr>handler_calls := handler_calls w @ [(callbacks w cb, e, Guarded)]\<rparr>"
  by (simp add: callback_fn_def runGuarded_def call_handler_def)

lemma fold_callback_fn:
  "fold (\<lambda>cb. callback_fn cb e) cbs w =
     w\<lparr>handler_calls := handler_calls w @ map (\<lambda>cb. (callbacks w cb, e, Guarded)) cbs\<rparr>"
  by (induction cbs arbitrary: w) (simp_all add: callback_fn_eq)

lemma emit_eq:
  "emit mc n e w =
     w\<lparr>handler_calls := handler_calls w @
        map (\<lambda>cb. (callbacks w cb, e, Guarded)) (listeners (engine_calls w) mc n)\<rparr>"
  by (simp add: emit_def fold_callback_fn)

lemma fold_emit:
  "fold (emit mc n) evs w =
     w\<lparr>handler_calls := handler_calls w @
        concat (map (\<lambda>e. map (\<lambda>cb. (callbacks w cb, e, Guarded)) (listeners (engine_calls w) mc n)) evs)\<rparr>"
  by (induction evs arbitrary: w) (simp_all add: emit_eq)

lemma on_rejected_eq:
  "on_rejected r n w =
     w\<lparr>warnings := warnings w @ [loader_failed_msg n], deregister := (deregister w)(r := Noop)\<rparr>"
  by (simp add: on_rejected_def warn_def)

lemma settle_none: "pending w r = None \<Longrightarrow> settle rt p r out w = w"
  by (simp add: settle_def)

lemma settle_rejected:
  "pending w r = Some (el, n, h) \<Longrightarrow>
   settle rt p r Rejected w =
     w\<lparr>pending := (pending w)(r := None),
       warnings := warnings w @ [loader_failed_msg n],
       deregister := (deregister w)(r := Noop)\<rparr>"
  by (simp add: settle_def on_rejected_eq)

lemma settle_still_absent:
  "pending w r = Some (el, n, h) \<Longrightarrow> Hammer w = None \<Longrightarrow>
   settle rt p r Resolved w =
     w\<lparr>pending := (pending w)(r := None),
       warnings := warnings w @ [still_absent_msg],
       deregister := (deregister w)(r := Noop)\<rparr>"
  by (simp add: settle_def on_resolved_def warn_def)

lemma settle_cancelled:
  "pending w r = Some (el, n, h) \<Longrightarrow> Hammer w \<noteq> None \<Longrightarrow> cancelRegistration w r \<Longrightarrow>
   settle rt p r Resolved w = w\<lparr>pending := (pending w)(r := None)\<rparr>"
  by (auto simp: settle_def on_resolved_def)

lemma settle_bound:
  "pending w r = Some (el, n, h) \<Longrightarrow> \<not> cancelRegistration w r \<Longrightarrow> builds rt (config p) el w \<Longrightarrow>
   settle rt p r Resolved w =
     w\<lparr>pending := (pending w)(r := None),
       ninstances := ninstances w + 1,
       ncallbacks := ncallbacks w + 1,
       callbacks := (callbacks w)(ncallbacks w := h),
       engine_calls := engine_calls w @
          map (Pair OutsideAngular)
            (builder_calls (config p) (ninstances w) el @
             [On (ninstances w) (toLowerCase rt n) (ncallbacks w)]),
       deregister := (deregister w)
          (r := EngineOff (ninstances w) (toLowerCase rt n) (ncallbacks w))\<rparr>"
  using builds_Hammer[of rt "config p" el w]
  by (auto simp: settle_def on_resolved_def addEventListener_bound)

lemma settle_build_throws:
  assumes "pending w r = Some (el, n, h)" and "Hammer w \<noteq> None" and "\<not> cancelRegistration w r"
      and "\<not> builds rt (config p) el w"
  shows "\<exists>n' cs. settle rt p r Resolved w =
           w\<lparr>pending := (pending w)(r := None),
             ninstances := n',
             engine_calls := engine_calls w @ map (Pair OutsideAngular) cs,
             warnings := warnings w @ [loader_failed_msg n],
             deregister := (deregister w)(r := Noop)\<rparr> \<and>
         ninstances w \<le> n' \<and> (cs \<noteq> [] \<longrightarrow> ninstances w < n') \<and>
         build_calls_only (ninstances w) cs"
proof -
  let ?w0 = "w\<lparr>pending := (pending w)(r := None)\<rparr>"
  from assms(2,4) have "Hammer ?w0 \<noteq> None \<or> \<not> loader p" "\<not> builds rt (config p) el ?w0"
    by simp_all
  from addEventListener_throws[OF this, of n h] obtain e n' cs where
    a: "addEventListener rt p el n h ?w0 =
           (Threw e,
            ?w0\<lparr>ninstances := n', engine_calls := engine_calls ?w0 @ map (Pair OutsideAngular) cs\<rparr>)"
    and r: "ninstances ?w0 \<le> n'" "cs \<noteq> [] \<longrightarrow> ninstances ?w0 < n'"
      "build_calls_only (ninstances ?w0) cs"
    by blast
  from assms(1,2,3) a have "settle rt p r Resolved w =
           w\<lparr>pending := (pending w)(r := None),
             ninstances := n',
             engine_calls := engine_calls w @ map (Pair OutsideAngular) cs,
             warnings := warnings w @ [loader_failed_msg n],
             deregister := (deregister w)(r := Noop)\<rparr>"
    by (auto simp: settle_def on_resolved_def on_rejected_eq)
  with r show ?thesis by (intro exI conjI) (assumption, simp_all)
qed

subsection \<open>The settling of a promise, case by case\<close>

text \<open>
  The settling of an unsettled promise has one of five effects; a property of all five holds
  of every settling.
\<close>

lemma settle_cases:
  assumes "pending w r = Some (el, n, h)"
    and "P (w\<lparr>pending := (pending w)(r := None),
             warnings := warnings w @ [loader_failed_msg n],
             deregister := (deregister w)(r := Noop)\<rparr>)"
    and "P (w\<lparr>pending := (pending w)(r := None),
             warnings := warnings w @ [still_absent_msg],
             deregister := (deregister w)(r := Noop)\<rparr>)"
    and "P (w\<lparr>pending := (pending w)(r := None)\<rparr>)"
    and "P (w\<lparr>pending := (pending w)(r := None),
             ninstances := ninstances w + 1,
             ncallbacks := ncallbacks w + 1,
             callbacks := (callbacks w)(ncallbacks w := h),
             engine_calls := engine_calls w @
                map (Pair OutsideAngular)
                  (builder_calls (config p) (ninstances w) el @
                   [On (ninstances w) (toLowerCase rt n) (ncallbacks w)]),
             deregister := (deregister w)
                (r := EngineOff (ninstances w) (toLowerCase rt n) (ncallbacks w))\<rparr>)"
    and "\<And>n' cs. ninstances w \<le> n' \<Longrightarrow> (cs \<noteq> [] \<longrightarrow> ninstances w < n') \<Longrightarrow>
           build_calls_only (ninstances w) cs \<Longrightarrow>
           P (w\<lparr>pending := (pending w)(r := None),
                ninstances := n',
                engine_calls := engine_calls w @ map (Pair OutsideAngular) cs,
                warnings := warnings w @ [loader_failed_msg n],
                deregister := (deregister w)(r := Noop)\<rparr>)"
  shows "P (settle rt p r out w)"
proof (cases out)
  case Rejected
  with assms(1,2) show ?thesis by (simp add: settle_rejected)
next
  case Resolved
  show ?thesis
  proof (cases "Hammer w = None")
    case True
    with assms(1,3) Resolved show ?thesis by (simp add: settle_still_absent)
  next
    case False
    show ?thesis
    proof (cases "cancelRegistration w r")
      case True
      with assms(1,4) Resolved False show ?thesis by (simp add: settle_cancelled)
    next
      case nc: False
      show ?thesis
      proof (cases "builds rt (config p) el w")
        case True
        with assms(1,5) Resolved nc show ?thesis by (simp add: settle_bound)
      next
        case nb: False
        from settle_build_throws[OF assms(1) False nc nb] obtain n' cs where
          "settle rt p r Resolved w =
             w\<lparr>pending := (pending w)(r := None),
               ninstances := n',
               engine_calls := engine_calls w @ map (Pair OutsideAngular) cs,
               warnings := warnings w @ [loader_failed_msg n],
               deregister := (deregister w)(r := Noop)\<rparr>"
          "ninstances w \<le> n'" "cs \<noteq> [] \<longrightarrow> ninstances w < n'"
          "build_calls_only (ninstances w) cs"
          by blast
        with assms(6)[of n' cs] Resolved show ?thesis by simp
      qed
    qed
  qed
qed

lemma settle_zone: "zone (settle rt p r out w) = zone w"
proof (cases "pending w r")
  case None
  then show ?thesis by (simp add: settle_none)
next
  case (Some t)
  then obtain el n h where t: "pending w r = Some (el, n, h)" by (cases t) auto
  show ?thesis by (rule settle_cases[OF t]) simp_all
qed

lemma settle_instances_callbacks:
  assumes "pending w r = Some (el, n, h)" and "builds rt (config p) el w"
      and "\<not> cancelRegistration w r"
  shows "engine_calls (settle rt p r Resolved w) =
           engine_calls w @ map (Pair OutsideAngular)
             (builder_calls (config p) (ninstances w) el @
              [On (ninstances w) (toLowerCase rt n) (ncallbacks w)])"
    and "callbacks (settle rt p r Resolved w) (ncallbacks w) = h"
    and "handler_calls (settle rt p r Resolved w) = handler_calls w"
  using assms by (simp_all add: settle_bound)

subsection \<open>What no other step does to the variables of a deferred call\<close>

lemma addEventListener_cell:
  assumes "r < nregistrations w"
  shows "nregistrations w \<le> nregistrations (snd (addEventListener rt p el name h w)) \<and>
         deregister (snd (addEventListener rt p el name h w)) r = deregister w r \<and>
         pending (snd (addEventListener rt p el name h w)) r = pending w r \<and>
         cancelRegistration (snd (addEventListener rt p el name h w)) r = cancelRegistration w r"
proof (cases "builds rt (config p) el w")
  case True
  then show ?thesis by (simp add: addEventListener_bound)
next
  case False
  show ?thesis
  proof (cases "Hammer w = None \<and> loader p")
    case True
    with assms show ?thesis by (simp add: addEventListener_deferred)
  next
    case nd: False
    then have "Hammer w \<noteq> None \<or> \<not> loader p" by auto
    from addEventListener_throws[OF this False, of name h] show ?thesis by auto
  qed
qed

lemma settle_cell:
  assumes "r' \<noteq> r \<or> pending w r = None"
  shows "nregistrations (settle rt p r' out w) = nregistrations w \<and>
         deregister (settle rt p r' out w) r = deregister w r \<and>
         pending (settle rt p r' out w) r = pending w r \<and>
         cancelRegistration (settle rt p r' out w) r = cancelRegistration w r"
proof (cases "pending w r'")
  case None
  then show ?thesis by (simp add: settle_none)
next
  case (Some t)
  then obtain el n h where t: "pending w r' = Some (el, n, h)" by (cases t) auto
  with assms have ne: "r' \<noteq> r" by auto
  show ?thesis by (rule settle_cases[OF t]) (use ne in simp_all)
qed

lemma step_cell:
  assumes "step rt p a w = Some w'" and "r < nregistrations w"
      and "\<forall>out. a = Settle r out \<longrightarrow> pending w r = None"
  shows "r < nregistrations w' \<and> deregister w' r = deregister w r \<and>
         pending w' r = pending w r \<and> (cancelRegistration w r \<longrightarrow> cancelRegistration w' r)"
proof (cases a)
  case (AskSupports n)
  with assms show ?thesis by (auto simp: supports_def warn_def)
next
  case (AddListener el n h)
  with assms(1) have "w' = snd (addEventListener rt p el n h w)" by simp
  with addEventListener_cell[OF assms(2), of rt p el n h] assms(2) show ?thesis by simp
next
  case (Invoke d)
  with assms(1) have "invoke d w = Some w'" by simp
  from invoke_frame[OF this]
  have e: "w' = w\<lparr>cancelRegistration := cancelRegistration w', engine_calls := engine_calls w'\<rparr>"
    and m: "\<forall>r. cancelRegistration w r \<longrightarrow> cancelRegistration w' r"
    by auto
  have "nregistrations w' = nregistrations w" "deregister w' = deregister w"
    "pending w' = pending w"
    by (subst e, simp)+
  with assms(2) m show ?thesis by simp
next
  case (Settle r' out)
  with assms(3) have "r' \<noteq> r \<or> pending w r = None" by auto
  from settle_cell[OF this, of rt p out] Settle assms(1,2) show ?thesis by auto
next
  case (SetHammer H)
  with assms show ?thesis by auto
next
  case (Emit mc n e)
  with assms show ?thesis by (auto simp: emit_eq)
qed

lemma run_cell:
  assumes "run rt p as w = Some w'" and "r < nregistrations w"
      and "pending w r = None \<or> (\<forall>out. Settle r out \<notin> set as)"
  shows "r < nregistrations w' \<and> deregister w' r = deregister w r \<and>
         pending w' r = pending w r \<and> (cancelRegistration w r \<longrightarrow> cancelRegistration w' r)"
  using assms
proof (induction as arbitrary: w)
  case Nil
  then show ?case by simp
next
  case (Cons a as)
  from Cons.prems(1) obtain w1 where s: "step rt p a w = Some w1" and r: "run rt p as w1 = Some w'"
    by (auto split: option.splits)
  from Cons.prems(3) have "\<forall>out. a = Settle r out \<longrightarrow> pending w r = None" by auto
  from step_cell[OF s Cons.prems(2) this]
  have 1: "r < nregistrations w1" "deregister w1 r = deregister w r"
    "pending w1 r = pending w r" "cancelRegistration w r \<longrightarrow> cancelRegistration w1 r"
    by auto
  from Cons.prems(3) 1(3) have "pending w1 r = None \<or> (\<forall>out. Settle r out \<notin> set as)" by auto
  from Cons.IH[OF r 1(1) this] 1 show ?case by auto
qed

text \<open>
  A deferred call, followed by anything but the settling of its promise, is still pending
  with the captured element, lowercased name and handler.
\<close>

lemma deferred_then_run:
  assumes "Hammer w = None" and "loader p"
      and "run rt p as (snd (addEventListener rt p el name h w)) = Some w2"
      and "\<forall>out. Settle (nregistrations w) out \<notin> set as"
  shows "nregistrations w < nregistrations w2 \<and>
         pending w2 (nregistrations w) = Some (el, toLowerCase rt name, h) \<and>
         deregister w2 (nregistrations w) = CancelRegistration (nregistrations w)"
proof -
  let ?w1 = "snd (addEventListener rt p el name h w)"
  have 1: "nregistrations w < nregistrations ?w1"
    "pending ?w1 (nregistrations w) = Some (el, toLowerCase rt name, h)"
    "deregister ?w1 (nregistrations w) = CancelRegistration (nregistrations w)"
    using assms(1,2) by (simp_all add: addEventListener_deferred)
  from run_cell[OF assms(3) 1(1)] assms(4) 1 show ?thesis by simp
qed

lemma settled_then_run:
  assumes "run rt p bs w3 = Some w4" and "r < nregistrations w3" and "pending w3 r = None"
  shows "deregister w4 r = deregister w3 r \<and> pending w4 r = None"
  using run_cell[OF assms(1,2)] assms(3) by simp

subsection \<open>The shape of the variables of a deferred call, and the table of a new instance\<close>

lemma settle_registration_inv:
  assumes "registration_inv r w" and "pending w r = Some (el, n, h)"
  shows "registration_inv r (settle rt p r out w)"
  by (rule settle_cases[OF assms(2)]) (use assms in \<open>simp_all add: registration_inv_def\<close>)

lemma step_registration_inv:
  assumes "step rt p a w = Some w'" and "registration_inv r w"
  shows "registration_inv r w'"
proof (cases "\<exists>out. a = Settle r out \<and> pending w r \<noteq> None")
  case True
  then obtain out t where a: "a = Settle r out" and "pending w r = Some t" by auto
  then obtain el n h where "pending w r = Some (el, n, h)" by (cases t) auto
  from settle_registration_inv[OF assms(2) this, of rt p out] a assms(1) show ?thesis by simp
next
  case False
  then have "\<forall>out. a = Settle r out \<longrightarrow> pending w r = None"
    by (cases "pending w r") auto
  from step_cell[OF assms(1) _ this] assms(2) show ?thesis
    by (auto simp: registration_inv_def split: option.splits)
qed

lemma run_registration_inv:
  "run rt p as w = Some w' \<Longrightarrow> registration_inv r w \<Longrightarrow> registration_inv r w'"
proof (induction as arbitrary: w)
  case Nil
  then show ?case by simp
next
  case (Cons a as)
  from Cons.prems(1) obtain w1 where s: "step rt p a w = Some w1" and r: "run rt p as w1 = Some w'"
    by (auto split: option.splits)
  from step_registration_inv[OF s Cons.prems(2)] have "registration_inv r w1" .
  from Cons.IH[OF r this] show ?case .
qed

lemma deferred_registration_inv:
  assumes "Hammer w = None" and "loader p"
  shows "registration_inv (nregistrations w) (snd (addEventListener rt p el name h w))"
  using assms by (simp add: addEventListener_deferred registration_inv_def)

lemma invoke_handle_twice:
  assumes "registration_inv r w"
  shows "case removal (CallDeregister r) w of
           None \<Rightarrow> (\<exists>w3. invoke (CallDeregister r) w = Some w3 \<and>
                      invoke (CallDeregister r) w3 = Some w3 \<and> engine_calls w3 = engine_calls w)
         | Some (mc, n, cb) \<Rightarrow>
             invoke (CallDeregister r) w = Some (engine (Off mc n cb) w) \<and>
             invoke (CallDeregister r) (engine (Off mc n cb) w) =
               Some (engine (Off mc n cb) (engine (Off mc n cb) w))"
proof (cases "deregister w r")
  case (CancelRegistration r')
  with assms have "r' = r" by (auto simp: registration_inv_def split: option.splits)
  with CancelRegistration have c: "deregister w r = CancelRegistration r" by simp
  let ?w3 = "w\<lparr>cancelRegistration := (cancelRegistration w)(r := True)\<rparr>"
  have "invoke (CallDeregister r) w = Some ?w3"
    by (simp add: invoke_CallDeregister c invoke_Cancel)
  moreover have "invoke (CallDeregister r) ?w3 = Some ?w3"
    by (simp add: invoke_CallDeregister c invoke_Cancel)
  ultimately show ?thesis by (simp add: removal_def c)
next
  case Noop
  then show ?thesis by (simp add: removal_def invoke_CallDeregister invoke_Noop)
next
  case (CallDeregister r')
  with assms show ?thesis by (auto simp: registration_inv_def split: option.splits)
next
  case (EngineOff mc n cb)
  then show ?thesis
    by (simp add: removal_def invoke_CallDeregister invoke_EngineOff engine_def)
qed

lemma foldl_listener_other:
  "\<forall>c \<in> set cs. instance_of c \<noteq> mc \<Longrightarrow> foldl (listener_step mc n) ls cs = ls"
proof (induction cs arbitrary: ls)
  case Nil
  then show ?case by simp
next
  case (Cons c cs)
  then have "listener_step mc n ls c = ls" by (cases c) auto
  with Cons show ?case by simp
qed

lemma foldl_listener_builder:
  "foldl (listener_step mc n) ls (builder_calls cfg m el) = ls"
proof -
  have "foldl (listener_step mc n) ls (map (\<lambda>(k, bag). GetSet m k bag) ovs) = ls" for ovs
    by (induction ovs) auto
  then show ?thesis by (simp add: builder_calls_def)
qed

lemma listeners_fresh:
  assumes "instances_known w"
  shows "listeners (engine_calls w) (ninstances w) n = []"
proof -
  from assms have "\<forall>c \<in> set (map snd (engine_calls w)). instance_of c \<noteq> ninstances w"
    by (auto simp: instances_known_def list_all_iff)
  then show ?thesis unfolding listeners_def by (rule foldl_listener_other)
qed

lemma listeners_after_bind:
  assumes "instances_known w"
  shows "listeners (engine_calls w @ map (Pair z) (builder_calls cfg (ninstances w) el @
            [On (ninstances w) n cb])) (ninstances w) n = [cb]"
proof -
  from listeners_fresh[OF assms]
  have "foldl (listener_step (ninstances w) n) [] (map snd (engine_calls w)) = []"
    by (simp add: listeners_def)
  then show ?thesis
    by (simp add: listeners_def comp_def foldl_listener_builder)
qed

lemma instances_known_grow:
  assumes "instances_known w" and "ninstances w \<le> n'"
      and "\<forall>c \<in> set cs. instance_of c < n'"
  shows "instances_known
           (w\<lparr>ninstances := n', engine_calls := engine_calls w @ map (Pair z) cs\<rparr>)"
  using assms by (auto simp: instances_known_def list_all_iff)

lemma build_calls_only_less:
  "build_calls_only mc cs \<Longrightarrow> cs \<noteq> [] \<longrightarrow> mc < n' \<Longrightarrow> \<forall>c \<in> set cs. instance_of c < n'"
  by (auto simp: build_calls_only_def)

lemma instances_known_addEventListener:
  assumes "instances_known w"
  shows "instances_known (snd (addEventListener rt p el name h w))"
proof (cases "builds rt (config p) el w")
  case True
  have "\<forall>c \<in> set (builder_calls (config p) (ninstances w) el @
            [On (ninstances w) (toLowerCase rt name) (ncallbacks w)]).
          instance_of c < ninstances w + 1"
    by (auto simp: instance_of_builder_calls)
  from instances_known_grow[OF assms _ this, of OutsideAngular] True show ?thesis
    by (simp add: addEventListener_bound instances_known_def)
next
  case False
  show ?thesis
  proof (cases "Hammer w = None \<and> loader p")
    case True
    with assms show ?thesis by (simp add: addEventListener_deferred instances_known_def)
  next
    case nd: False
    then have "Hammer w \<noteq> None \<or> \<not> loader p" by auto
    from addEventListener_throws[OF this False, of name h] obtain e n' cs where
      a: "addEventListener rt p el name h w =
           (Threw e,
            w\<lparr>ninstances := n', engine_calls := engine_calls w @ map (Pair OutsideAngular) cs\<rparr>)"
      and r: "ninstances w \<le> n'" "cs \<noteq> [] \<longrightarrow> ninstances w < n'"
        "build_calls_only (ninstances w) cs"
      by blast
    from instances_known_grow[OF assms r(1) build_calls_only_less[OF r(3,2)]] a
    show ?thesis by simp
  qed
qed

lemma instances_known_settle:
  assumes "instances_known w"
  shows "instances_known (settle rt p r out w)"
proof (cases "pending w r")
  case None
  with assms show ?thesis by (simp add: settle_none)
next
  case (Some t)
  then obtain el n h where t: "pending w r = Some (el, n, h)" by (cases t) auto
  show ?thesis
  proof (rule settle_cases[OF t])
    have "\<forall>c \<in> set (builder_calls (config p) (ninstances w) el @
            [On (ninstances w) (toLowerCase rt n) (ncallbacks w)]).
          instance_of c < ninstances w + 1"
      by (auto simp: instance_of_builder_calls)
    from instances_known_grow[OF assms _ this, of OutsideAngular]
    show "instances_known
       (w\<lparr>pending := (pending w)(r := None),
           ninstances := ninstances w + 1,
           ncallbacks := ncallbacks w + 1,
           callbacks := (callbacks w)(ncallbacks w := h),
           engine_calls := engine_calls w @
              map (Pair OutsideAngular)
                (builder_calls (config p) (ninstances w) el @
                 [On (ninstances w) (toLowerCase rt n) (ncallbacks w)]),
           deregister := (deregister w)
              (r := EngineOff (ninstances w) (toLowerCase rt n) (ncallbacks w))\<rparr>)"
      by (simp add: instances_known_def)
  next
    fix n' cs
    assume r: "ninstances w \<le> n'" "cs \<noteq> [] \<longrightarrow> ninstances w < n'"
      "build_calls_only (ninstances w) cs"
    from instances_known_grow[OF assms r(1) build_calls_only_less[OF r(3,2)], of OutsideAngular]
    show "instances_known
       (w\<lparr>pending := (pending w)(r := None),
           ninstances := n',
           engine_calls := engine_calls w @ map (Pair OutsideAngular) cs,
           warnings := warnings w @ [loader_failed_msg n],
           deregister := (deregister w)(r := Noop)\<rparr>)"
      by (simp add: instances_known_def)
  qed (use assms in \<open>simp_all add: instances_known_def\<close>)
qed

subsection \<open>The concrete values, evaluated\<close>

lemma runtime0_fields:
  "toLowerCase runtime0 = ascii_lower"
  "has_recognizer runtime0 tr mc name = (name \<in> set recognizer_names)"
  by (simp_all add: runtime0_def)

lemma lower_char_idem: "lower_char (lower_char c) = lower_char c"
  unfolding lower_char_def Let_def by auto

lemma ascii_lower_idem: "ascii_lower (ascii_lower s) = ascii_lower s"
  by (simp add: ascii_lower_def lower_char_idem)

lemma EVENT_NAMES_lower: "n \<in> set EVENT_NAMES \<Longrightarrow> toLowerCase runtime0 n = n"
  by (auto simp: runtime0_fields EVENT_NAMES_def ascii_lower_def lower_char_def)

lemma lower_PinchStart: "toLowerCase runtime0 ''PinchStart'' = ''pinchstart''"
  unfolding runtime0_fields by code_simp

lemma lower_pinchstart: "toLowerCase runtime0 ''pinchstart'' = ''pinchstart''"
  unfolding runtime0_fields by code_simp

lemma lower_Tap: "toLowerCase runtime0 ''Tap'' = ''tap''"
  unfolding runtime0_fields by code_simp

lemma lower_tap: "toLowerCase runtime0 ''tap'' = ''tap''"
  unfolding runtime0_fields by code_simp

lemma lower_MyEvent: "toLowerCase runtime0 ''MyEvent'' = ''myevent''"
  unfolding runtime0_fields by code_simp

lemma lower_myevent: "toLowerCase runtime0 ''myevent'' = ''myevent''"
  unfolding runtime0_fields by code_simp

lemma lower_myevent_not_fixed: "''myevent'' \<notin> set EVENT_NAMES"
  by (simp add: EVENT_NAMES_def)

lemma Hammer_world0: "Hammer world0 = None"
  by (simp add: world0_def)

lemma Hammer_world1: "Hammer world1 = Some (\<lambda>_ _. True)"
  by (simp add: world1_def)

lemma loader_plugins: "loader plugin_with_loader" "\<not> loader plugin_no_loader"
  "config plugin_with_loader = config0" "config plugin_no_loader = config0"
  by (simp_all add: plugin_with_loader_def plugin_no_loader_def)

lemma config0_fields: "options config0 = None"
  "overrides config0 =
     [(''swipe'', [(''velocity'', JNum 1)]), (''pinch'', [(''enable'', JBool False)])]"
  "events config0 = [''MyEvent'']"
  by (simp_all add: config0_def)

lemma world0_fields:
  "Hammer world0 = None" "zone world0 = CallerZone" "warnings world0 = []"
  "engine_calls world0 = []" "ninstances world0 = 0" "ncallbacks world0 = 0"
  "nregistrations world0 = 0" "cancelRegistration world0 r = False"
  "deregister world0 r = Noop" "pending world0 r = None" "loader_calls world0 = 0"
  "handler_calls world0 = []"
  by (simp_all add: world0_def)

lemma world1_fields:
  "Hammer world1 = Some (\<lambda>_ _. True)" "zone world1 = CallerZone" "warnings world1 = []"
  "engine_calls world1 = []" "ninstances world1 = 0" "ncallbacks world1 = 0"
  "nregistrations world1 = 0" "cancelRegistration world1 r = False"
  "deregister world1 r = Noop" "pending world1 r = None" "loader_calls world1 = 0"
  "handler_calls world1 = []"
  by (simp_all add: world1_def world0_def)

lemma config_panleft_fields: "options config_panleft = None"
  "overrides config_panleft =
     [(''panleft'', [(''threshold'', JNum 5)]), (''swipe'', [(''velocity'', JNum 1)])]"
  by (simp_all add: config_panleft_def)

lemma builds_config0:
  "Hammer w = Some (\<lambda>_ _. True) \<Longrightarrow> builds runtime0 config0 el w"
  by (simp add: builds_def runtime0_fields lookups_def config0_fields recognizer_names_def)

lemma not_builds_config_panleft: "\<not> builds runtime0 config_panleft el w"
  by (simp add: builds_def runtime0_fields lookups_def config_panleft_fields
      recognizer_names_def split: option.splits)

lemma world_deferred_eq:
  "world_deferred =
     world0\<lparr>nregistrations := 1,
       cancelRegistration := (cancelRegistration world0)(0 := False),
       deregister := (deregister world0)(0 := CancelRegistration 0),
       loader_calls := 1,
       pending := (pending world0)(0 := Some (5, ''tap'', 7))\<rparr>"
  by (simp add: world_deferred_def addEventListener_deferred world0_fields loader_plugins lower_Tap)

lemma world_deferred_fields:
  "Hammer world_deferred = None" "zone world_deferred = CallerZone"
  "warnings world_deferred = []"
  "engine_calls world_deferred = []" "ninstances world_deferred = 0" "ncallbacks world_deferred = 0"
  "nregistrations world_deferred = 1" "cancelRegistration world_deferred 0 = False"
  "deregister world_deferred 0 = CancelRegistration 0"
  "pending world_deferred 0 = Some (5, ''tap'', 7)"
  "loader_calls world_deferred = 1" "handler_calls world_deferred = []"
  by (simp_all add: world_deferred_eq world0_fields)

lemma world_loaded_fields:
  "Hammer world_loaded = Some (\<lambda>_ _. True)" "zone world_loaded = CallerZone"
  "warnings world_loaded = []"
  "engine_calls world_loaded = []" "ninstances world_loaded = 0" "ncallbacks world_loaded = 0"
  "nregistrations world_loaded = 1" "cancelRegistration world_loaded 0 = False"
  "deregister world_loaded 0 = CancelRegistration 0" "pending world_loaded 0 = Some (5, ''tap'', 7)"
  "loader_calls world_loaded = 1" "handler_calls world_loaded = []"
  by (simp_all add: world_loaded_def world_deferred_eq world0_fields)

lemma world_cancelled_loaded_fields:
  "Hammer world_cancelled_loaded = Some (\<lambda>_ _. True)"
  "engine_calls world_cancelled_loaded = []" "ninstances world_cancelled_loaded = 0"
  "ncallbacks world_cancelled_loaded = 0" "handler_calls world_cancelled_loaded = []"
  "cancelRegistration world_cancelled_loaded 0"
  "deregister world_cancelled_loaded 0 = CancelRegistration 0"
  "pending world_cancelled_loaded 0 = Some (5, ''tap'', 7)"
  by (simp_all add: world_cancelled_loaded_def world_cancelled_def world_deferred_fields)

lemma instances_known_examples: "instances_known world0" "instances_known world1"
  "instances_known world_loaded"
  by (simp_all add: instances_known_def world0_fields world1_fields world_loaded_fields)

lemma world_bound_calls:
  "fst (addEventListener runtime0 plugin_no_loader 5 ''Tap'' 7 world1) = Returned (EngineOff 0 ''tap'' 0)"
  "engine_calls (snd (addEventListener runtime0 plugin_no_loader 5 ''Tap'' 7 world1)) =
     [(OutsideAngular, New 0 5 None),
      (OutsideAngular, GetSet 0 ''pinch'' [(''enable'', JBool True)]),
      (OutsideAngular, GetSet 0 ''rotate'' [(''enable'', JBool True)]),
      (OutsideAngular, GetSet 0 ''swipe'' [(''velocity'', JNum 1)]),
      (OutsideAngular, GetSet 0 ''pinch'' [(''enable'', JBool False)]),
      (OutsideAngular, On 0 ''tap'' 0)]"
  "zone (snd (addEventListener runtime0 plugin_no_loader 5 ''Tap'' 7 world1)) = CallerZone"
proof -
  have "builds runtime0 (config plugin_no_loader) 5 world1"
    by (simp add: loader_plugins builds_config0 world1_fields)
  note e = addEventListener_bound[OF this, of "''Tap''" 7]
  show "fst (addEventListener runtime0 plugin_no_loader 5 ''Tap'' 7 world1) =
      Returned (EngineOff 0 ''tap'' 0)"
    by (simp add: e world1_fields lower_Tap)
  show "engine_calls (snd (addEventListener runtime0 plugin_no_loader 5 ''Tap'' 7 world1)) =
     [(OutsideAngular, New 0 5 None),
      (OutsideAngular, GetSet 0 ''pinch'' [(''enable'', JBool True)]),
      (OutsideAngular, GetSet 0 ''rotate'' [(''enable'', JBool True)]),
      (OutsideAngular, GetSet 0 ''swipe'' [(''velocity'', JNum 1)]),
      (OutsideAngular, GetSet 0 ''pinch'' [(''enable'', JBool False)]),
      (OutsideAngular, On 0 ''tap'' 0)]"
    by (simp add: e world1_fields lower_Tap loader_plugins config0_fields builder_calls_explicit)
  show "zone (snd (addEventListener runtime0 plugin_no_loader 5 ''Tap'' 7 world1)) = CallerZone"
    by (simp add: e world1_fields)
qed

section \<open>Properties of the registration protocol\<close>

text \<open>
  C1. Take a deferred call, and let its deregistration function be invoked while its promise
  is unsettled, with anything happening before and after that invocation. Then the
  invocation only sets the call's cancellation flag, and when the promise settles, however it
  settles and whether the engine is there by then or not, the settling makes no call on
  the engine either (no instance is built, \<open>on\<close> is not called), creates no callback and
  invokes no handler. Whatever happens afterwards, the deregistration function still
  returns and makes no call on the engine, so \<open>off\<close> is never called for this call.
\<close>

theorem cancelled_registration_never_binds:
  assumes "Hammer w0 = None" and "loader p"
      and "run rt p as (snd (addEventListener rt p el name h w0)) = Some w1"
      and "\<forall>out. Settle (nregistrations w0) out \<notin> set as"
      and "invoke (CallDeregister (nregistrations w0)) w1 = Some w2"
      and "run rt p bs w2 = Some w3"
      and "\<forall>out. Settle (nregistrations w0) out \<notin> set bs"
      and "run rt p cs (settle rt p (nregistrations w0) out w3) = Some w5"
  shows "fst (addEventListener rt p el name h w0) = Returned (CallDeregister (nregistrations w0)) \<and>
         w2 = w1\<lparr>cancelRegistration := (cancelRegistration w1)(nregistrations w0 := True)\<rparr> \<and>
         engine_calls w2 = engine_calls w1 \<and>
         engine_calls (settle rt p (nregistrations w0) out w3) = engine_calls w3 \<and>
         ninstances (settle rt p (nregistrations w0) out w3) = ninstances w3 \<and>
         ncallbacks (settle rt p (nregistrations w0) out w3) = ncallbacks w3 \<and>
         handler_calls (settle rt p (nregistrations w0) out w3) = handler_calls w3 \<and>
         (\<exists>w6. invoke (CallDeregister (nregistrations w0)) w5 = Some w6 \<and>
               engine_calls w6 = engine_calls w5)"
proof -
  let ?r = "nregistrations w0"
  from deferred_then_run[OF assms(1-4)]
  have d1: "?r < nregistrations w1" "pending w1 ?r = Some (el, toLowerCase rt name, h)"
    "deregister w1 ?r = CancelRegistration ?r" by simp_all
  from assms(5) d1(3)
  have w2: "w2 = w1\<lparr>cancelRegistration := (cancelRegistration w1)(?r := True)\<rparr>"
    by (simp add: invoke_CallDeregister invoke_Cancel)
  then have d2: "?r < nregistrations w2" "pending w2 ?r = Some (el, toLowerCase rt name, h)"
    "deregister w2 ?r = CancelRegistration ?r" "cancelRegistration w2 ?r"
    using d1 by simp_all
  from run_cell[OF assms(6) d2(1)] assms(7) d2
  have d3: "?r < nregistrations w3" "pending w3 ?r = Some (el, toLowerCase rt name, h)"
    "deregister w3 ?r = CancelRegistration ?r" "cancelRegistration w3 ?r"
    by simp_all
  have s: "engine_calls (settle rt p ?r out w3) = engine_calls w3 \<and>
           ninstances (settle rt p ?r out w3) = ninstances w3 \<and>
           ncallbacks (settle rt p ?r out w3) = ncallbacks w3 \<and>
           handler_calls (settle rt p ?r out w3) = handler_calls w3 \<and>
           ?r < nregistrations (settle rt p ?r out w3) \<and>
           pending (settle rt p ?r out w3) ?r = None \<and>
           (deregister (settle rt p ?r out w3) ?r = CancelRegistration ?r \<or>
            deregister (settle rt p ?r out w3) ?r = Noop)"
  proof (cases out)
    case Rejected
    with d3 show ?thesis by (simp add: settle_rejected)
  next
    case Resolved
    show ?thesis
    proof (cases "Hammer w3")
      case None
      with d3 Resolved show ?thesis by (simp add: settle_still_absent)
    next
      case (Some ctor)
      with d3 Resolved show ?thesis by (simp add: settle_cancelled)
    qed
  qed
  from settled_then_run[OF assms(8)] s
  have "deregister w5 ?r = CancelRegistration ?r \<or> deregister w5 ?r = Noop" by auto
  then have i: "\<exists>w6. invoke (CallDeregister ?r) w5 = Some w6 \<and> engine_calls w6 = engine_calls w5"
    by (auto simp: invoke_CallDeregister invoke_Cancel invoke_Noop)
  have f: "fst (addEventListener rt p el name h w0) = Returned (CallDeregister ?r)"
    using assms(1,2) by (simp add: addEventListener_deferred)
  from f w2 s i show ?thesis by simp
qed

theorem cancelled_registration_never_binds_witness:
  "Hammer world0 = None \<and> loader plugin_with_loader \<and>
   run runtime0 plugin_with_loader [] (snd (addEventListener runtime0 plugin_with_loader 5 ''Tap'' 7 world0)) =
     Some world_deferred \<and>
   (\<forall>out. Settle (nregistrations world0) out \<notin> set []) \<and>
   invoke (CallDeregister (nregistrations world0)) world_deferred = Some world_cancelled \<and>
   run runtime0 plugin_with_loader [SetHammer (Some (\<lambda>_ _. True))] world_cancelled =
     Some world_cancelled_loaded \<and>
   (\<forall>out. Settle (nregistrations world0) out \<notin> set [SetHammer (Some (\<lambda>_ _. True))]) \<and>
   run runtime0 plugin_with_loader []
     (settle runtime0 plugin_with_loader (nregistrations world0) Resolved world_cancelled_loaded) =
     Some (settle runtime0 plugin_with_loader 0 Resolved world_cancelled_loaded) \<and>
   Hammer world_cancelled_loaded = Some (\<lambda>_ _. True) \<and>
   fst (addEventListener runtime0 plugin_with_loader 5 ''Tap'' 7 world0) = Returned (CallDeregister 0) \<and>
   engine_calls world_cancelled = [] \<and>
   engine_calls (settle runtime0 plugin_with_loader 0 Resolved world_cancelled_loaded) = [] \<and>
   ninstances (settle runtime0 plugin_with_loader 0 Resolved world_cancelled_loaded) = 0 \<and>
   ncallbacks (settle runtime0 plugin_with_loader 0 Resolved world_cancelled_loaded) = 0 \<and>
   handler_calls (settle runtime0 plugin_with_loader 0 Resolved world_cancelled_loaded) = [] \<and>
   (\<exists>w6. invoke (CallDeregister 0) (settle runtime0 plugin_with_loader 0 Resolved world_cancelled_loaded) =
           Some w6 \<and> engine_calls w6 = [])"
proof -
  have r1: "run runtime0 plugin_with_loader [] (snd (addEventListener runtime0 plugin_with_loader 5 ''Tap'' 7 world0)) =
     Some world_deferred"
    by (simp add: world_deferred_def)
  have n1: "\<forall>out. Settle (nregistrations world0) out \<notin> set []" by simp
  have i: "invoke (CallDeregister (nregistrations world0)) world_deferred = Some world_cancelled"
    by (simp add: world0_fields invoke_CallDeregister world_deferred_fields invoke_Cancel
        world_cancelled_def)
  have r2: "run runtime0 plugin_with_loader [SetHammer (Some (\<lambda>_ _. True))] world_cancelled =
     Some world_cancelled_loaded"
    by (simp add: world_cancelled_loaded_def)
  have n2: "\<forall>out. Settle (nregistrations world0) out \<notin> set [SetHammer (Some (\<lambda>_ _. True))]"
    by simp
  have r3: "run runtime0 plugin_with_loader []
     (settle runtime0 plugin_with_loader (nregistrations world0) Resolved world_cancelled_loaded) =
     Some (settle runtime0 plugin_with_loader 0 Resolved world_cancelled_loaded)"
    by (simp add: world0_fields)
  note t = cancelled_registration_never_binds[OF world0_fields(1) loader_plugins(1) r1 n1 i r2 n2 r3,
      unfolded world0_fields(7)]
  from t have f: "fst (addEventListener runtime0 plugin_with_loader 5 ''Tap'' 7 world0) =
      Returned (CallDeregister 0)"
    by (simp add: world0_fields)
  from t have c: "engine_calls world_cancelled = []"
    by (simp add: world_deferred_fields)
  from t have e: "engine_calls (settle runtime0 plugin_with_loader 0 Resolved world_cancelled_loaded) = []"
    "ninstances (settle runtime0 plugin_with_loader 0 Resolved world_cancelled_loaded) = 0"
    "ncallbacks (settle runtime0 plugin_with_loader 0 Resolved world_cancelled_loaded) = 0"
    "handler_calls (settle runtime0 plugin_with_loader 0 Resolved world_cancelled_loaded) = []"
    by (simp_all add: world0_fields world_cancelled_loaded_fields)
  have "\<exists>w6. invoke (CallDeregister 0)
        (settle runtime0 plugin_with_loader 0 Resolved world_cancelled_loaded) = Some w6 \<and>
      engine_calls w6 = engine_calls (settle runtime0 plugin_with_loader 0 Resolved world_cancelled_loaded)"
    by (rule t[THEN conjunct2, THEN conjunct2, THEN conjunct2, THEN conjunct2, THEN conjunct2,
          THEN conjunct2, THEN conjunct2])
  then have x: "\<exists>w6. invoke (CallDeregister 0)
        (settle runtime0 plugin_with_loader 0 Resolved world_cancelled_loaded) = Some w6 \<and>
      engine_calls w6 = []"
    by (simp only: e)
  from f c e x r1 n1 i r2 n2 r3 world0_fields(1) loader_plugins(1) world_cancelled_loaded_fields(1)
  show ?thesis by blast
qed

text \<open>
  C2, as the specification has it, fails for a bound call: the second invocation of the
  deregistration function is not a no-op, it calls the engine's \<open>off\<close> a second time with
  the same arguments. Nothing in the plugin remembers that the listener was removed.
\<close>

theorem second_deregistration_counterexample:
  "fst (addEventListener runtime0 plugin_no_loader 5 ''Tap'' 7 world1) = Returned (EngineOff 0 ''tap'' 0) \<and>
   map_option engine_calls
     (Option.bind
        (invoke (EngineOff 0 ''tap'' 0) (snd (addEventListener runtime0 plugin_no_loader 5 ''Tap'' 7 world1)))
        (invoke (EngineOff 0 ''tap'' 0))) =
     Some [(OutsideAngular, New 0 5 None),
           (OutsideAngular, GetSet 0 ''pinch'' [(''enable'', JBool True)]),
           (OutsideAngular, GetSet 0 ''rotate'' [(''enable'', JBool True)]),
           (OutsideAngular, GetSet 0 ''swipe'' [(''velocity'', JNum 1)]),
           (OutsideAngular, GetSet 0 ''pinch'' [(''enable'', JBool False)]),
           (OutsideAngular, On 0 ''tap'' 0),
           (CallerZone, Off 0 ''tap'' 0),
           (CallerZone, Off 0 ''tap'' 0)]"
  by (simp add: world_bound_calls invoke_EngineOff engine_def)

text \<open>
  C2, amended. Take any call of \<open>addEventListener\<close> that returned, and any later moment.
  Invoking the returned function twice there returns both times. While the call is
  pending, cancelled or failed (the function performs no removal), the first invocation
  makes no call on the engine and the second changes nothing at all. Once the call is
  bound, every invocation calls the engine's \<open>off\<close> with the same instance, name and
  callback again: the plugin keeps no guard of its own, and whether a repeated removal is
  harmless is left to the engine.
\<close>

theorem deregistration_twice:
  assumes "fst (addEventListener rt p el name h w) = Returned d"
      and "run rt p as (snd (addEventListener rt p el name h w)) = Some w2"
  shows "case removal d w2 of
           None \<Rightarrow> (\<exists>w3. invoke d w2 = Some w3 \<and> invoke d w3 = Some w3 \<and>
                      engine_calls w3 = engine_calls w2)
         | Some (mc, n, cb) \<Rightarrow>
             invoke d w2 = Some (engine (Off mc n cb) w2) \<and>
             invoke d (engine (Off mc n cb) w2) =
               Some (engine (Off mc n cb) (engine (Off mc n cb) w2))"
proof -
  from addEventListener_returned[OF assms(1)]
  consider (deferred) "Hammer w = None" "loader p" "d = CallDeregister (nregistrations w)"
    | (bound) "d = EngineOff (ninstances w) (toLowerCase rt name) (ncallbacks w)"
    by auto
  then show ?thesis
  proof cases
    case deferred
    from deferred_registration_inv[OF deferred(1,2)]
    have "registration_inv (nregistrations w) (snd (addEventListener rt p el name h w))" .
    from run_registration_inv[OF assms(2) this]
    have "registration_inv (nregistrations w) w2" .
    from invoke_handle_twice[OF this] show ?thesis unfolding deferred(3) .
  next
    case bound
    then show ?thesis by (simp add: removal_def invoke_EngineOff)
  qed
qed

theorem deregistration_twice_witness:
  "fst (addEventListener runtime0 plugin_with_loader 5 ''Tap'' 7 world0) = Returned (CallDeregister 0) \<and>
   run runtime0 plugin_with_loader [] (snd (addEventListener runtime0 plugin_with_loader 5 ''Tap'' 7 world0)) =
     Some world_deferred \<and>
   removal (CallDeregister 0) world_deferred = None \<and>
   (\<exists>w3. invoke (CallDeregister 0) world_deferred = Some w3 \<and>
      invoke (CallDeregister 0) w3 = Some w3 \<and> engine_calls w3 = engine_calls world_deferred) \<and>
   fst (addEventListener runtime0 plugin_no_loader 5 ''Tap'' 7 world1) = Returned (EngineOff 0 ''tap'' 0) \<and>
   run runtime0 plugin_no_loader [] (snd (addEventListener runtime0 plugin_no_loader 5 ''Tap'' 7 world1)) =
     Some (snd (addEventListener runtime0 plugin_no_loader 5 ''Tap'' 7 world1)) \<and>
   removal (EngineOff 0 ''tap'' 0) (snd (addEventListener runtime0 plugin_no_loader 5 ''Tap'' 7 world1)) =
     Some (0, ''tap'', 0) \<and>
   invoke (EngineOff 0 ''tap'' 0) (snd (addEventListener runtime0 plugin_no_loader 5 ''Tap'' 7 world1)) =
     Some (engine (Off 0 ''tap'' 0) (snd (addEventListener runtime0 plugin_no_loader 5 ''Tap'' 7 world1))) \<and>
   invoke (EngineOff 0 ''tap'' 0)
     (engine (Off 0 ''tap'' 0) (snd (addEventListener runtime0 plugin_no_loader 5 ''Tap'' 7 world1))) =
     Some (engine (Off 0 ''tap'' 0)
        (engine (Off 0 ''tap'' 0) (snd (addEventListener runtime0 plugin_no_loader 5 ''Tap'' 7 world1))))"
proof -
  have a: "fst (addEventListener runtime0 plugin_with_loader 5 ''Tap'' 7 world0) = Returned (CallDeregister 0)"
    by (simp add: addEventListener_deferred world0_fields loader_plugins)
  have b: "run runtime0 plugin_with_loader [] (snd (addEventListener runtime0 plugin_with_loader 5 ''Tap'' 7 world0)) =
     Some world_deferred"
    by (simp add: world_deferred_def)
  have c: "removal (CallDeregister 0) world_deferred = None"
    by (simp add: removal_def world_deferred_eq)
  have e: "run runtime0 plugin_no_loader [] (snd (addEventListener runtime0 plugin_no_loader 5 ''Tap'' 7 world1)) =
     Some (snd (addEventListener runtime0 plugin_no_loader 5 ''Tap'' 7 world1))"
    by simp
  have f: "removal (EngineOff 0 ''tap'' 0) (snd (addEventListener runtime0 plugin_no_loader 5 ''Tap'' 7 world1)) =
     Some (0, ''tap'', 0)"
    by (simp add: removal_def)
  from deregistration_twice[OF a b] c
  have p1: "\<exists>w3. invoke (CallDeregister 0) world_deferred = Some w3 \<and>
      invoke (CallDeregister 0) w3 = Some w3 \<and> engine_calls w3 = engine_calls world_deferred"
    by simp
  from deregistration_twice[OF world_bound_calls(1) e] f
  have p2: "invoke (EngineOff 0 ''tap'' 0) (snd (addEventListener runtime0 plugin_no_loader 5 ''Tap'' 7 world1)) =
     Some (engine (Off 0 ''tap'' 0) (snd (addEventListener runtime0 plugin_no_loader 5 ''Tap'' 7 world1))) \<and>
   invoke (EngineOff 0 ''tap'' 0)
     (engine (Off 0 ''tap'' 0) (snd (addEventListener runtime0 plugin_no_loader 5 ''Tap'' 7 world1))) =
     Some (engine (Off 0 ''tap'' 0)
        (engine (Off 0 ''tap'' 0) (snd (addEventListener runtime0 plugin_no_loader 5 ''Tap'' 7 world1))))"
    by simp
  from a b c e f p1 p2 world_bound_calls(1) show ?thesis by blast
qed

text \<open>
  C3, as the specification has it, fails: with the engine absent and no loader the call
  does not return.
\<close>

theorem addEventListener_unguarded_counterexample:
  "fst (addEventListener runtime0 plugin_no_loader 5 ''pinch'' 7 world0) = Threw HammerUndefined"
  by (simp add: addEventListener_throw1 Hammer_world0 plugin_no_loader_def)

text \<open>
  C3, amended. When the engine is absent and no loader is given, \<open>addEventListener\<close> takes
  the binding path: it tries to construct the engine, which throws because the global is
  not there, and the exception reaches the caller. Nothing is bound, no warning is logged
  and no loader is invoked: the world is as before the call.
\<close>

theorem addEventListener_unguarded_throws:
  assumes "Hammer w = None" and "\<not> loader p"
  shows "addEventListener rt p el name h w = (Threw HammerUndefined, w)"
  using assms by (rule addEventListener_throw1)

theorem addEventListener_unguarded_throws_witness:
  "Hammer world0 = None \<and> \<not> loader plugin_no_loader \<and>
   fst (addEventListener runtime0 plugin_no_loader 5 ''pinch'' 7 world0) = Threw HammerUndefined \<and>
   engine_calls (snd (addEventListener runtime0 plugin_no_loader 5 ''pinch'' 7 world0)) = [] \<and>
   warnings (snd (addEventListener runtime0 plugin_no_loader 5 ''pinch'' 7 world0)) = []"
proof -
  have b: "\<not> loader plugin_no_loader" by (simp add: plugin_no_loader_def)
  have c: "engine_calls world0 = []" "warnings world0 = []" by (simp_all add: world0_def)
  from addEventListener_unguarded_throws[OF Hammer_world0 b, of runtime0 5 "''pinch''" 7] b c Hammer_world0
  show ?thesis by simp
qed

text \<open>
  C5. When the name is recognized, the engine is not there and no loader is given,
  \<open>supports\<close> answers \<open>false\<close> and gives \<open>console.warn\<close> exactly one message, which quotes
  the name as the caller wrote it; this holds for the world of every call, so each call
  warns once. When the name is not recognized, it answers \<open>false\<close> and warns nothing.
\<close>

theorem supports_warns_once:
  "((toLowerCase rt eventName \<in> set EVENT_NAMES \<or> eventName \<in> set (events (config p))) \<and>
    Hammer w = None \<and> \<not> loader p \<longrightarrow>
      supports rt p eventName w =
        (False, w\<lparr>warnings := warnings w @ [not_loaded_msg eventName]\<rparr>) \<and>
      not_loaded_msg eventName =
        ''The '' @ [CHR 0x22] @ eventName @ [CHR 0x22] @
        '' event cannot be bound because Hammer.JS is not loaded and no custom loader has been specified.'') \<and>
   (\<not> (toLowerCase rt eventName \<in> set EVENT_NAMES \<or> eventName \<in> set (events (config p))) \<longrightarrow>
      supports rt p eventName w = (False, w))"
  by (simp add: supports_def hasOwnProperty_def isCustomEvent_iff warn_def not_loaded_msg_def)

theorem supports_warns_once_witness:
  "toLowerCase runtime0 ''PinchStart'' \<in> set EVENT_NAMES \<and> Hammer world0 = None \<and>
   \<not> loader plugin_no_loader \<and>
   fst (supports runtime0 plugin_no_loader ''PinchStart'' world0) = False \<and>
   warnings (snd (supports runtime0 plugin_no_loader ''PinchStart'' world0)) =
     [''The '' @ [CHR 0x22] @ ''PinchStart'' @ [CHR 0x22] @
      '' event cannot be bound because Hammer.JS is not loaded and no custom loader has been specified.''] \<and>
   \<not> (toLowerCase runtime0 ''myevent'' \<in> set EVENT_NAMES \<or>
       ''myevent'' \<in> set (events (config plugin_no_loader))) \<and>
   supports runtime0 plugin_no_loader ''myevent'' world0 = (False, world0)"
proof -
  have a: "toLowerCase runtime0 ''PinchStart'' \<in> set EVENT_NAMES"
    by (simp add: lower_PinchStart EVENT_NAMES_def)
  have b: "\<not> loader plugin_no_loader" by (simp add: plugin_no_loader_def)
  have c: "toLowerCase runtime0 ''myevent'' \<notin> set EVENT_NAMES" by code_simp
  have d: "''myevent'' \<notin> set (events (config plugin_no_loader))"
    by (simp add: plugin_no_loader_def config0_def)
  have e: "warnings world0 = []" by (simp add: world0_def)
  from a b c d e Hammer_world0
    supports_warns_once[of runtime0 "''PinchStart''" plugin_no_loader world0]
    supports_warns_once[of runtime0 "''myevent''" plugin_no_loader world0]
  show ?thesis by simp
qed

text \<open>
  C7. Take a deferred call whose promise is still unsettled, after anything that happened
  since the call. If the loader rejects, or resolves while the engine is still absent, the
  settling logs exactly one warning, empties the call's \<open>deregister\<close> variable and does
  nothing else: no call on the engine, no callback, no invocation of a handler, and the
  variables and promises of every other call are as before. From then on, whatever
  happens, the call's deregistration function returns and leaves the world as it is.
\<close>

theorem failed_load_is_permanent_noop:
  assumes "Hammer w0 = None" and "loader p"
      and "run rt p as (snd (addEventListener rt p el name h w0)) = Some w"
      and "\<forall>out. Settle (nregistrations w0) out \<notin> set as"
      and "out = Rejected \<or> Hammer w = None"
      and "run rt p bs (settle rt p (nregistrations w0) out w) = Some w'"
  shows "fst (addEventListener rt p el name h w0) = Returned (CallDeregister (nregistrations w0)) \<and>
         settle rt p (nregistrations w0) out w =
           w\<lparr>pending := (pending w)(nregistrations w0 := None),
             warnings := warnings w @
               [if out = Rejected then loader_failed_msg (toLowerCase rt name) else still_absent_msg],
             deregister := (deregister w)(nregistrations w0 := Noop)\<rparr> \<and>
         engine_calls (settle rt p (nregistrations w0) out w) = engine_calls w \<and>
         ncallbacks (settle rt p (nregistrations w0) out w) = ncallbacks w \<and>
         handler_calls (settle rt p (nregistrations w0) out w) = handler_calls w \<and>
         deregister w' (nregistrations w0) = Noop \<and>
         invoke (CallDeregister (nregistrations w0)) w' = Some w'"
proof -
  let ?r = "nregistrations w0"
  from deferred_then_run[OF assms(1-4)]
  have d: "?r < nregistrations w" "pending w ?r = Some (el, toLowerCase rt name, h)" by simp_all
  have s: "settle rt p ?r out w =
           w\<lparr>pending := (pending w)(?r := None),
             warnings := warnings w @
               [if out = Rejected then loader_failed_msg (toLowerCase rt name) else still_absent_msg],
             deregister := (deregister w)(?r := Noop)\<rparr>"
  proof (cases out)
    case Rejected
    with d(2) show ?thesis by (simp add: settle_rejected)
  next
    case Resolved
    with assms(5) have "Hammer w = None" by simp
    with d(2) Resolved show ?thesis by (simp add: settle_still_absent)
  qed
  have "deregister w' ?r = deregister (settle rt p ?r out w) ?r"
    using settled_then_run[OF assms(6)] d(1) by (simp add: s)
  then have n: "deregister w' ?r = Noop" by (simp add: s)
  then have i: "invoke (CallDeregister ?r) w' = Some w'"
    by (simp add: invoke_CallDeregister invoke_Noop)
  have f: "fst (addEventListener rt p el name h w0) = Returned (CallDeregister ?r)"
    using assms(1,2) by (simp add: addEventListener_deferred)
  from f s n i show ?thesis by simp
qed

theorem failed_load_is_permanent_noop_witness:
  "Hammer world0 = None \<and> loader plugin_with_loader \<and>
   run runtime0 plugin_with_loader [] (snd (addEventListener runtime0 plugin_with_loader 5 ''Tap'' 7 world0)) =
     Some world_deferred \<and>
   (\<forall>out. Settle (nregistrations world0) out \<notin> set []) \<and>
   Hammer world_deferred = None \<and>
   run runtime0 plugin_with_loader [Invoke (CallDeregister 0)]
     (settle runtime0 plugin_with_loader (nregistrations world0) Resolved world_deferred) =
     Some (settle runtime0 plugin_with_loader 0 Resolved world_deferred) \<and>
   fst (addEventListener runtime0 plugin_with_loader 5 ''Tap'' 7 world0) = Returned (CallDeregister 0) \<and>
   warnings (settle runtime0 plugin_with_loader 0 Resolved world_deferred) = [still_absent_msg] \<and>
   engine_calls (settle runtime0 plugin_with_loader 0 Resolved world_deferred) = [] \<and>
   deregister (settle runtime0 plugin_with_loader 0 Resolved world_deferred) 0 = Noop \<and>
   invoke (CallDeregister 0) (settle runtime0 plugin_with_loader 0 Resolved world_deferred) =
     Some (settle runtime0 plugin_with_loader 0 Resolved world_deferred)"
proof -
  have r1: "run runtime0 plugin_with_loader [] (snd (addEventListener runtime0 plugin_with_loader 5 ''Tap'' 7 world0)) =
     Some world_deferred"
    by (simp add: world_deferred_def)
  have n: "\<forall>out. Settle (nregistrations world0) out \<notin> set []" by simp
  have s: "deregister (settle runtime0 plugin_with_loader 0 Resolved world_deferred) 0 = Noop"
    by (simp add: settle_still_absent[where el = 5 and n = "''tap''" and h = 7] world_deferred_fields)
  have r2: "run runtime0 plugin_with_loader [Invoke (CallDeregister 0)]
     (settle runtime0 plugin_with_loader (nregistrations world0) Resolved world_deferred) =
     Some (settle runtime0 plugin_with_loader 0 Resolved world_deferred)"
    by (simp add: world0_fields invoke_CallDeregister s invoke_Noop)
  have o: "Resolved = Rejected \<or> Hammer world_deferred = None"
    by (simp add: world_deferred_fields)
  note t = failed_load_is_permanent_noop[OF world0_fields(1) loader_plugins(1) r1 n o r2,
      unfolded world0_fields(7)]
  from t have f: "fst (addEventListener runtime0 plugin_with_loader 5 ''Tap'' 7 world0) =
      Returned (CallDeregister 0)"
    by (simp add: world0_fields)
  from t have e: "settle runtime0 plugin_with_loader 0 Resolved world_deferred =
      world_deferred\<lparr>pending := (pending world_deferred)(0 := None),
        warnings := warnings world_deferred @ [still_absent_msg],
        deregister := (deregister world_deferred)(0 := Noop)\<rparr>"
    by (simp add: world0_fields)
  have w: "warnings (settle runtime0 plugin_with_loader 0 Resolved world_deferred) = [still_absent_msg]"
    "engine_calls (settle runtime0 plugin_with_loader 0 Resolved world_deferred) = []"
    by (simp_all add: e world_deferred_fields)
  have i: "invoke (CallDeregister 0) (settle runtime0 plugin_with_loader 0 Resolved world_deferred) =
      Some (settle runtime0 plugin_with_loader 0 Resolved world_deferred)"
    by (rule t[THEN conjunct2, THEN conjunct2, THEN conjunct2, THEN conjunct2, THEN conjunct2,
          THEN conjunct2])
  from f w s i r1 n r2 world0_fields(1) loader_plugins(1) world_deferred_fields(1)
  show ?thesis by blast
qed

text \<open>
  C4. \<open>supports\<close> turns a name away at its first test, which is seen from outside as the
  answer \<open>false\<close> with the world untouched (no warning), exactly when neither the lowercased
  name is a key of \<open>EVENT_NAMES\<close> nor the name itself is in the configured list of custom
  events. A name that is recognized is supported exactly when the engine is there or a
  loader is given. The test against the fixed names ignores case: the fixed names are
  written in lowercase, and every spelling that lowercases to the same string as a fixed
  name (which lowercasing leaves as it is) is recognized.
\<close>

theorem supports_recognizes:
  "((supports rt p eventName w \<noteq> (False, w)) =
      (toLowerCase rt eventName \<in> set EVENT_NAMES \<or> eventName \<in> set (events (config p)))) \<and>
   (fst (supports rt p eventName w) =
      ((toLowerCase rt eventName \<in> set EVENT_NAMES \<or> eventName \<in> set (events (config p))) \<and>
       (Hammer w \<noteq> None \<or> loader p))) \<and>
   (\<forall>name \<in> set EVENT_NAMES.
      toLowerCase rt name = name \<and> toLowerCase rt eventName = toLowerCase rt name \<longrightarrow>
        supports rt p eventName w \<noteq> (False, w)) \<and>
   (toLowerCase rt eventName \<notin> set EVENT_NAMES \<and> eventName \<notin> set (events (config p)) \<longrightarrow>
      supports rt p eventName w = (False, w))"
proof -
  have 1: "(supports rt p eventName w \<noteq> (False, w)) =
      (toLowerCase rt eventName \<in> set EVENT_NAMES \<or> eventName \<in> set (events (config p)))"
    by (rule supports_first_test)
  have 2: "fst (supports rt p eventName w) =
      ((toLowerCase rt eventName \<in> set EVENT_NAMES \<or> eventName \<in> set (events (config p))) \<and>
       (Hammer w \<noteq> None \<or> loader p))"
    by (auto simp: supports_def hasOwnProperty_def isCustomEvent_iff)
  have 3: "\<forall>name \<in> set EVENT_NAMES.
      toLowerCase rt name = name \<and> toLowerCase rt eventName = toLowerCase rt name \<longrightarrow>
        supports rt p eventName w \<noteq> (False, w)"
    using 1 by auto
  have 4: "toLowerCase rt eventName \<notin> set EVENT_NAMES \<and> eventName \<notin> set (events (config p)) \<longrightarrow>
      supports rt p eventName w = (False, w)"
    using 1 by blast
  from 1 2 3 4 show ?thesis by blast
qed

theorem supports_recognizes_witness:
  "''pinchstart'' \<in> set EVENT_NAMES \<and>
   toLowerCase runtime0 ''pinchstart'' = ''pinchstart'' \<and>
   toLowerCase runtime0 ''PinchStart'' = toLowerCase runtime0 ''pinchstart'' \<and>
   supports runtime0 plugin_no_loader ''PinchStart'' world1 \<noteq> (False, world1) \<and>
   fst (supports runtime0 plugin_no_loader ''PinchStart'' world1) \<and>
   toLowerCase runtime0 ''myevent'' \<notin> set EVENT_NAMES \<and>
   ''myevent'' \<notin> set (events (config plugin_no_loader)) \<and>
   supports runtime0 plugin_no_loader ''myevent'' world1 = (False, world1)"
proof -
  have a: "''pinchstart'' \<in> set EVENT_NAMES" by (simp add: EVENT_NAMES_def)
  have b: "toLowerCase runtime0 ''PinchStart'' = toLowerCase runtime0 ''pinchstart''"
    by (simp add: lower_PinchStart lower_pinchstart)
  have c: "toLowerCase runtime0 ''myevent'' \<notin> set EVENT_NAMES"
    by (simp add: lower_myevent lower_myevent_not_fixed)
  have d: "''myevent'' \<notin> set (events (config plugin_no_loader))"
    by (simp add: plugin_no_loader_def config0_def)
  from a b c d Hammer_world1 lower_pinchstart
    supports_recognizes[of runtime0 plugin_no_loader "''PinchStart''" world1]
    supports_recognizes[of runtime0 plugin_no_loader "''myevent''" world1]
  show ?thesis by (simp add: lower_PinchStart lower_pinchstart)
qed

text \<open>
  C6, as the specification has it, fails: \<open>buildHammer\<close> does not apply every override. With
  the overrides \<open>panleft\<close> and \<open>swipe\<close> on an instance that has no recognizer named
  \<open>panleft\<close>, \<open>mc.get('panleft')\<close> yields \<open>null\<close>, \<open>.set\<close> on it throws, and the override of
  \<open>swipe\<close> is never applied.
\<close>

theorem buildHammer_missing_recognizer_counterexample:
  "buildHammer runtime0 config_panleft 5 world1 =
     (Threw NoRecognizer,
      world1\<lparr>ninstances := 1,
        engine_calls :=
          [(CallerZone, New 0 5 None),
           (CallerZone, GetSet 0 ''pinch'' [(''enable'', JBool True)]),
           (CallerZone, GetSet 0 ''rotate'' [(''enable'', JBool True)]),
           (CallerZone, GetNull 0 ''panleft'')]\<rparr>)"
  by (simp add: buildHammer_def world1_fields config_panleft_fields get_set_def engine_def
      runtime0_fields recognizer_names_def enable_true_def)

text \<open>
  C6, amended. When the engine is loaded and its constructor returns for the element and
  the base options, \<open>buildHammer\<close> constructs the instance from them and then looks up, in
  this order, \<open>pinch\<close>, \<open>rotate\<close> and every key of \<open>overrides\<close>. As long as the lookups yield
  recognizers it sets \<open>enable: true\<close> on \<open>pinch\<close> and \<open>rotate\<close>, whatever the base options are,
  and \<open>overrides[eventName]\<close> on the recognizer of each key, and returns the instance after
  the last. At the first lookup that yields no recognizer it throws, after the calls made so
  far: the bags of that key and of the keys after it are not applied. When the engine is
  not loaded or its constructor throws, it throws before any call.
\<close>

theorem buildHammer_calls:
  "(builds rt cfg el w \<longrightarrow>
      buildHammer rt cfg el w =
        (Returned (ninstances w),
         w\<lparr>ninstances := ninstances w + 1,
           engine_calls := engine_calls w @
             map (Pair (zone w))
               ([New (ninstances w) el (options cfg),
                 GetSet (ninstances w) ''pinch'' [(''enable'', JBool True)],
                 GetSet (ninstances w) ''rotate'' [(''enable'', JBool True)]] @
                map (\<lambda>(eventName, bag). GetSet (ninstances w) eventName bag) (overrides cfg))\<rparr>)) \<and>
   (Hammer w = Some ctor \<and> ctor el (options cfg) \<and> \<not> builds rt cfg el w \<longrightarrow>
      (\<exists>k<length (lookups cfg).
         lookups_found rt (ninstances w) (take k (lookups cfg))
           (map snd (engine_calls w) @ [New (ninstances w) el (options cfg)]) \<and>
         \<not> has_recognizer rt
             (map snd (engine_calls w) @ New (ninstances w) el (options cfg) #
              map (\<lambda>(eventName, bag). GetSet (ninstances w) eventName bag) (take k (lookups cfg)))
             (ninstances w) (fst (lookups cfg ! k)) \<and>
         buildHammer rt cfg el w =
           (Threw NoRecognizer,
            w\<lparr>ninstances := ninstances w + 1,
              engine_calls := engine_calls w @
                map (Pair (zone w))
                  (New (ninstances w) el (options cfg) #
                   map (\<lambda>(eventName, bag). GetSet (ninstances w) eventName bag)
                     (take k (lookups cfg)) @
                   [GetNull (ninstances w) (fst (lookups cfg ! k))])\<rparr>))) \<and>
   (Hammer w = Some ctor \<and> \<not> ctor el (options cfg) \<longrightarrow>
      buildHammer rt cfg el w = (Threw EngineThrew, w)) \<and>
   (Hammer w = None \<longrightarrow> buildHammer rt cfg el w = (Threw HammerUndefined, w))"
proof (intro conjI impI)
  assume "builds rt cfg el w"
  then show "buildHammer rt cfg el w =
        (Returned (ninstances w),
         w\<lparr>ninstances := ninstances w + 1,
           engine_calls := engine_calls w @
             map (Pair (zone w))
               ([New (ninstances w) el (options cfg),
                 GetSet (ninstances w) ''pinch'' [(''enable'', JBool True)],
                 GetSet (ninstances w) ''rotate'' [(''enable'', JBool True)]] @
                map (\<lambda>(eventName, bag). GetSet (ninstances w) eventName bag) (overrides cfg))\<rparr>)"
    by (simp add: buildHammer_ok builder_calls_explicit)
next
  let ?mc = "ninstances w"
  let ?w1 = "w\<lparr>ninstances := ?mc + 1,
                engine_calls := engine_calls w @ [(zone w, New ?mc el (options cfg))]\<rparr>"
  assume a: "Hammer w = Some ctor \<and> ctor el (options cfg) \<and> \<not> builds rt cfg el w"
  then have c: "Hammer w = Some ctor" "ctor el (options cfg)" by simp_all
  from a have "\<not> lookups_found rt ?mc (lookups cfg) (map snd (engine_calls ?w1))"
    by (auto simp: builds_def)
  from apply_overrides_missing[OF this] obtain k where k: "k < length (lookups cfg)"
    "lookups_found rt ?mc (take k (lookups cfg)) (map snd (engine_calls ?w1))"
    "\<not> has_recognizer rt
         (map snd (engine_calls ?w1) @ map (\<lambda>(n, bag). GetSet ?mc n bag) (take k (lookups cfg)))
         ?mc (fst (lookups cfg ! k))"
    "apply_overrides rt ?mc (lookups cfg) ?w1 =
       (Threw NoRecognizer,
        ?w1\<lparr>engine_calls := engine_calls ?w1 @
            map (Pair (zone ?w1))
              (map (\<lambda>(n, bag). GetSet ?mc n bag) (take k (lookups cfg)) @
               [GetNull ?mc (fst (lookups cfg ! k))])\<rparr>)"
    by blast
  have "buildHammer rt cfg el w =
           (Threw NoRecognizer,
            w\<lparr>ninstances := ?mc + 1,
              engine_calls := engine_calls w @
                map (Pair (zone w))
                  (New ?mc el (options cfg) #
                   map (\<lambda>(eventName, bag). GetSet ?mc eventName bag) (take k (lookups cfg)) @
                   [GetNull ?mc (fst (lookups cfg ! k))])\<rparr>)"
    using k(4) by (simp add: buildHammer_as_lookups[OF c])
  with k(1,2,3) show "\<exists>k<length (lookups cfg).
         lookups_found rt ?mc (take k (lookups cfg))
           (map snd (engine_calls w) @ [New ?mc el (options cfg)]) \<and>
         \<not> has_recognizer rt
             (map snd (engine_calls w) @ New ?mc el (options cfg) #
              map (\<lambda>(eventName, bag). GetSet ?mc eventName bag) (take k (lookups cfg)))
             ?mc (fst (lookups cfg ! k)) \<and>
         buildHammer rt cfg el w =
           (Threw NoRecognizer,
            w\<lparr>ninstances := ?mc + 1,
              engine_calls := engine_calls w @
                map (Pair (zone w))
                  (New ?mc el (options cfg) #
                   map (\<lambda>(eventName, bag). GetSet ?mc eventName bag)
                     (take k (lookups cfg)) @
                   [GetNull ?mc (fst (lookups cfg ! k))])\<rparr>)"
    by (intro exI[of _ k]) simp
next
  assume "Hammer w = Some ctor \<and> \<not> ctor el (options cfg)"
  then show "buildHammer rt cfg el w = (Threw EngineThrew, w)"
    by (simp add: buildHammer_def)
next
  assume "Hammer w = None"
  then show "buildHammer rt cfg el w = (Threw HammerUndefined, w)"
    by (simp add: buildHammer_def)
qed

theorem buildHammer_calls_witness:
  "builds runtime0 config0 5 world1 \<and>
   fst (buildHammer runtime0 config0 5 world1) = Returned 0 \<and>
   engine_calls (snd (buildHammer runtime0 config0 5 world1)) =
     [(CallerZone, New 0 5 None),
      (CallerZone, GetSet 0 ''pinch'' [(''enable'', JBool True)]),
      (CallerZone, GetSet 0 ''rotate'' [(''enable'', JBool True)]),
      (CallerZone, GetSet 0 ''swipe'' [(''velocity'', JNum 1)]),
      (CallerZone, GetSet 0 ''pinch'' [(''enable'', JBool False)])] \<and>
   Hammer world1 = Some (\<lambda>_ _. True) \<and> \<not> builds runtime0 config_panleft 5 world1 \<and>
   fst (buildHammer runtime0 config_panleft 5 world1) = Threw NoRecognizer \<and>
   Hammer (world0\<lparr>Hammer := Some (\<lambda>_ _. False)\<rparr>) = Some (\<lambda>_ _. False) \<and>
   fst (buildHammer runtime0 config0 5 (world0\<lparr>Hammer := Some (\<lambda>_ _. False)\<rparr>)) =
     Threw EngineThrew \<and>
   Hammer world0 = None \<and>
   fst (buildHammer runtime0 config0 5 world0) = Threw HammerUndefined"
proof -
  have b: "builds runtime0 config0 5 world1"
    by (simp add: builds_config0 world1_fields)
  note t = buildHammer_calls[where rt = runtime0 and cfg = config0 and el = 5 and w = world1]
  from t b have p1: "fst (buildHammer runtime0 config0 5 world1) = Returned 0"
    "engine_calls (snd (buildHammer runtime0 config0 5 world1)) =
     [(CallerZone, New 0 5 None),
      (CallerZone, GetSet 0 ''pinch'' [(''enable'', JBool True)]),
      (CallerZone, GetSet 0 ''rotate'' [(''enable'', JBool True)]),
      (CallerZone, GetSet 0 ''swipe'' [(''velocity'', JNum 1)]),
      (CallerZone, GetSet 0 ''pinch'' [(''enable'', JBool False)])]"
    by (simp_all add: world1_fields config0_fields)
  note u = buildHammer_calls[where rt = runtime0 and cfg = config_panleft and el = 5
      and w = world1 and ctor = "\<lambda>_ _. True", THEN conjunct2, THEN conjunct1]
  from u not_builds_config_panleft[of 5 world1]
  have p2: "fst (buildHammer runtime0 config_panleft 5 world1) = Threw NoRecognizer"
    by (auto simp: world1_fields)
  note v = buildHammer_calls[where rt = runtime0 and cfg = config0 and el = 5
      and w = "world0\<lparr>Hammer := Some (\<lambda>_ _. False)\<rparr>" and ctor = "\<lambda>_ _. False",
      THEN conjunct2, THEN conjunct2, THEN conjunct1]
  from v have p3:
    "fst (buildHammer runtime0 config0 5 (world0\<lparr>Hammer := Some (\<lambda>_ _. False)\<rparr>)) =
     Threw EngineThrew"
    by simp
  note x = buildHammer_calls[where rt = runtime0 and cfg = config0 and el = 5 and w = world0,
      THEN conjunct2, THEN conjunct2, THEN conjunct2]
  from x have p4: "fst (buildHammer runtime0 config0 5 world0) = Threw HammerUndefined"
    by (simp add: world0_fields)
  from b p1 p2 p3 p4 world1_fields(1) world0_fields(1) not_builds_config_panleft[of 5 world1]
  show ?thesis by simp
qed

text \<open>
  C8. A call that binds creates exactly one wrapped callback, gives it to \<open>on\<close> once, and
  its deregistration function gives \<open>off\<close> the same instance, the same name and the same
  callback. This holds when the instance is built at the call, and when the call was
  deferred and the instance is built when its loader resolves, the call not being
  cancelled, whatever happened in between and afterwards. A call binds when \<open>buildHammer\<close>
  returns, which \<open>builds\<close> says of the world the instance is built in.
\<close>

theorem off_receives_callback_of_on:
  "(builds rt (config p) el w \<longrightarrow>
      fst (addEventListener rt p el name h w) =
        Returned (EngineOff (ninstances w) (toLowerCase rt name) (ncallbacks w)) \<and>
      ncallbacks (snd (addEventListener rt p el name h w)) = ncallbacks w + 1 \<and>
      callbacks (snd (addEventListener rt p el name h w)) (ncallbacks w) = h \<and>
      engine_calls (snd (addEventListener rt p el name h w)) =
        engine_calls w @ map (Pair OutsideAngular)
          ([New (ninstances w) el (options (config p)),
            GetSet (ninstances w) ''pinch'' [(''enable'', JBool True)],
            GetSet (ninstances w) ''rotate'' [(''enable'', JBool True)]] @
           map (\<lambda>(eventName, bag). GetSet (ninstances w) eventName bag) (overrides (config p)) @
           [On (ninstances w) (toLowerCase rt name) (ncallbacks w)]) \<and>
      invoke (EngineOff (ninstances w) (toLowerCase rt name) (ncallbacks w)) w' =
        Some (w'\<lparr>engine_calls := engine_calls w' @
                [(zone w', Off (ninstances w) (toLowerCase rt name) (ncallbacks w))]\<rparr>)) \<and>
   (Hammer w = None \<and> loader p \<and>
    run rt p as (snd (addEventListener rt p el name h w)) = Some w2 \<and>
    (\<forall>out. Settle (nregistrations w) out \<notin> set as) \<and>
    \<not> cancelRegistration w2 (nregistrations w) \<and> builds rt (config p) el w2 \<and>
    run rt p bs (settle rt p (nregistrations w) Resolved w2) = Some w4 \<longrightarrow>
      fst (addEventListener rt p el name h w) = Returned (CallDeregister (nregistrations w)) \<and>
      ncallbacks (settle rt p (nregistrations w) Resolved w2) = ncallbacks w2 + 1 \<and>
      callbacks (settle rt p (nregistrations w) Resolved w2) (ncallbacks w2) = h \<and>
      engine_calls (settle rt p (nregistrations w) Resolved w2) =
        engine_calls w2 @ map (Pair OutsideAngular)
          ([New (ninstances w2) el (options (config p)),
            GetSet (ninstances w2) ''pinch'' [(''enable'', JBool True)],
            GetSet (ninstances w2) ''rotate'' [(''enable'', JBool True)]] @
           map (\<lambda>(eventName, bag). GetSet (ninstances w2) eventName bag) (overrides (config p)) @
           [On (ninstances w2) (toLowerCase rt (toLowerCase rt name)) (ncallbacks w2)]) \<and>
      invoke (CallDeregister (nregistrations w)) w4 =
        Some (w4\<lparr>engine_calls := engine_calls w4 @
                [(zone w4,
                  Off (ninstances w2) (toLowerCase rt (toLowerCase rt name)) (ncallbacks w2))]\<rparr>))"
proof (intro conjI impI)
  assume a: "builds rt (config p) el w"
  note e = addEventListener_bound[OF a, of name h]
  show "fst (addEventListener rt p el name h w) =
        Returned (EngineOff (ninstances w) (toLowerCase rt name) (ncallbacks w))"
    by (simp add: e)
  show "ncallbacks (snd (addEventListener rt p el name h w)) = ncallbacks w + 1"
    by (simp add: e)
  show "callbacks (snd (addEventListener rt p el name h w)) (ncallbacks w) = h"
    by (simp add: e)
  show "engine_calls (snd (addEventListener rt p el name h w)) =
        engine_calls w @ map (Pair OutsideAngular)
          ([New (ninstances w) el (options (config p)),
            GetSet (ninstances w) ''pinch'' [(''enable'', JBool True)],
            GetSet (ninstances w) ''rotate'' [(''enable'', JBool True)]] @
           map (\<lambda>(eventName, bag). GetSet (ninstances w) eventName bag) (overrides (config p)) @
           [On (ninstances w) (toLowerCase rt name) (ncallbacks w)])"
    by (simp add: e builder_calls_explicit)
  show "invoke (EngineOff (ninstances w) (toLowerCase rt name) (ncallbacks w)) w' =
        Some (w'\<lparr>engine_calls := engine_calls w' @
                [(zone w', Off (ninstances w) (toLowerCase rt name) (ncallbacks w))]\<rparr>)"
    by (simp add: invoke_EngineOff engine_def)
next
  let ?r = "nregistrations w"
  assume b: "Hammer w = None \<and> loader p \<and>
    run rt p as (snd (addEventListener rt p el name h w)) = Some w2 \<and>
    (\<forall>out. Settle ?r out \<notin> set as) \<and>
    \<not> cancelRegistration w2 ?r \<and> builds rt (config p) el w2 \<and>
    run rt p bs (settle rt p ?r Resolved w2) = Some w4"
  then have d: "nregistrations w < nregistrations w2"
    "pending w2 ?r = Some (el, toLowerCase rt name, h)"
    using deferred_then_run[where w = w and p = p and rt = rt and as = as and el = el
        and name = name and h = h and ?w2.0 = w2] by simp_all
  from b d have s: "settle rt p ?r Resolved w2 =
     w2\<lparr>pending := (pending w2)(?r := None),
       ninstances := ninstances w2 + 1,
       ncallbacks := ncallbacks w2 + 1,
       callbacks := (callbacks w2)(ncallbacks w2 := h),
       engine_calls := engine_calls w2 @
          map (Pair OutsideAngular)
            (builder_calls (config p) (ninstances w2) el @
             [On (ninstances w2) (toLowerCase rt (toLowerCase rt name)) (ncallbacks w2)]),
       deregister := (deregister w2)
          (?r := EngineOff (ninstances w2) (toLowerCase rt (toLowerCase rt name)) (ncallbacks w2))\<rparr>"
    using settle_bound[of w2 ?r el "toLowerCase rt name" h rt p] by simp
  show "fst (addEventListener rt p el name h w) = Returned (CallDeregister ?r)"
    using b by (simp add: addEventListener_deferred)
  show "ncallbacks (settle rt p ?r Resolved w2) = ncallbacks w2 + 1" by (simp add: s)
  show "callbacks (settle rt p ?r Resolved w2) (ncallbacks w2) = h" by (simp add: s)
  show "engine_calls (settle rt p ?r Resolved w2) =
        engine_calls w2 @ map (Pair OutsideAngular)
          ([New (ninstances w2) el (options (config p)),
            GetSet (ninstances w2) ''pinch'' [(''enable'', JBool True)],
            GetSet (ninstances w2) ''rotate'' [(''enable'', JBool True)]] @
           map (\<lambda>(eventName, bag). GetSet (ninstances w2) eventName bag) (overrides (config p)) @
           [On (ninstances w2) (toLowerCase rt (toLowerCase rt name)) (ncallbacks w2)])"
    by (simp add: s builder_calls_explicit)
  from b have r4: "run rt p bs (settle rt p ?r Resolved w2) = Some w4" by simp
  have "deregister w4 ?r = deregister (settle rt p ?r Resolved w2) ?r"
    using settled_then_run[OF r4] d(1) by (simp add: s)
  then have "deregister w4 ?r =
      EngineOff (ninstances w2) (toLowerCase rt (toLowerCase rt name)) (ncallbacks w2)"
    by (simp add: s)
  then show "invoke (CallDeregister ?r) w4 =
        Some (w4\<lparr>engine_calls := engine_calls w4 @
                [(zone w4,
                  Off (ninstances w2) (toLowerCase rt (toLowerCase rt name)) (ncallbacks w2))]\<rparr>)"
    by (rule invoke_handle_bound)
qed

theorem off_receives_callback_of_on_witness:
  "builds runtime0 (config plugin_no_loader) 5 world1 \<and>
   fst (addEventListener runtime0 plugin_no_loader 5 ''Tap'' 7 world1) = Returned (EngineOff 0 ''tap'' 0) \<and>
   ncallbacks (snd (addEventListener runtime0 plugin_no_loader 5 ''Tap'' 7 world1)) = 1 \<and>
   engine_calls (snd (addEventListener runtime0 plugin_no_loader 5 ''Tap'' 7 world1)) =
     [(OutsideAngular, New 0 5 None),
      (OutsideAngular, GetSet 0 ''pinch'' [(''enable'', JBool True)]),
      (OutsideAngular, GetSet 0 ''rotate'' [(''enable'', JBool True)]),
      (OutsideAngular, GetSet 0 ''swipe'' [(''velocity'', JNum 1)]),
      (OutsideAngular, GetSet 0 ''pinch'' [(''enable'', JBool False)]),
      (OutsideAngular, On 0 ''tap'' 0)] \<and>
   map_option engine_calls (invoke (EngineOff 0 ''tap'' 0) world1) =
     Some [(CallerZone, Off 0 ''tap'' 0)] \<and>
   Hammer world0 = None \<and> loader plugin_with_loader \<and>
   run runtime0 plugin_with_loader [SetHammer (Some (\<lambda>_ _. True))]
     (snd (addEventListener runtime0 plugin_with_loader 5 ''Tap'' 7 world0)) = Some world_loaded \<and>
   (\<forall>out. Settle (nregistrations world0) out \<notin> set [SetHammer (Some (\<lambda>_ _. True))]) \<and>
   \<not> cancelRegistration world_loaded (nregistrations world0) \<and>
   builds runtime0 (config plugin_with_loader) 5 world_loaded \<and>
   run runtime0 plugin_with_loader [] (settle runtime0 plugin_with_loader (nregistrations world0) Resolved world_loaded) =
     Some (settle runtime0 plugin_with_loader 0 Resolved world_loaded) \<and>
   fst (addEventListener runtime0 plugin_with_loader 5 ''Tap'' 7 world0) = Returned (CallDeregister 0) \<and>
   engine_calls (settle runtime0 plugin_with_loader 0 Resolved world_loaded) =
     [(OutsideAngular, New 0 5 None),
      (OutsideAngular, GetSet 0 ''pinch'' [(''enable'', JBool True)]),
      (OutsideAngular, GetSet 0 ''rotate'' [(''enable'', JBool True)]),
      (OutsideAngular, GetSet 0 ''swipe'' [(''velocity'', JNum 1)]),
      (OutsideAngular, GetSet 0 ''pinch'' [(''enable'', JBool False)]),
      (OutsideAngular, On 0 ''tap'' 0)] \<and>
   map_option engine_calls
     (invoke (CallDeregister 0) (settle runtime0 plugin_with_loader 0 Resolved world_loaded)) =
     Some [(OutsideAngular, New 0 5 None),
      (OutsideAngular, GetSet 0 ''pinch'' [(''enable'', JBool True)]),
      (OutsideAngular, GetSet 0 ''rotate'' [(''enable'', JBool True)]),
      (OutsideAngular, GetSet 0 ''swipe'' [(''velocity'', JNum 1)]),
      (OutsideAngular, GetSet 0 ''pinch'' [(''enable'', JBool False)]),
      (OutsideAngular, On 0 ''tap'' 0),
      (CallerZone, Off 0 ''tap'' 0)]"
proof -
  have r1: "run runtime0 plugin_with_loader [SetHammer (Some (\<lambda>_ _. True))]
     (snd (addEventListener runtime0 plugin_with_loader 5 ''Tap'' 7 world0)) = Some world_loaded"
    by (simp add: world_loaded_def world_deferred_def)
  have r2: "run runtime0 plugin_with_loader []
     (settle runtime0 plugin_with_loader (nregistrations world0) Resolved world_loaded) =
     Some (settle runtime0 plugin_with_loader 0 Resolved world_loaded)"
    by (simp add: world0_fields)
  have n: "\<forall>out. Settle (nregistrations world0) out \<notin> set [SetHammer (Some (\<lambda>_ _. True))]"
    by simp
  have c: "\<not> cancelRegistration world_loaded (nregistrations world0)"
    by (simp add: world0_fields world_loaded_fields)
  have b1: "builds runtime0 (config plugin_no_loader) 5 world1"
    by (simp add: loader_plugins builds_config0 world1_fields)
  have b2: "builds runtime0 (config plugin_with_loader) 5 world_loaded"
    by (simp add: loader_plugins builds_config0 world_loaded_fields)
  note t1 = off_receives_callback_of_on[where rt = runtime0 and w = world1 and el = 5
      and p = plugin_no_loader and name = "''Tap''" and h = 7 and w' = world1, THEN conjunct1]
  note t2 = off_receives_callback_of_on[where rt = runtime0 and w = world0 and el = 5
      and p = plugin_with_loader and name = "''Tap''" and h = 7
      and as = "[SetHammer (Some (\<lambda>_ _. True))]" and ?w2.0 = world_loaded and bs = "[]"
      and ?w4.0 = "settle runtime0 plugin_with_loader 0 Resolved world_loaded", THEN conjunct2]
  from t1 b1 have p1: "fst (addEventListener runtime0 plugin_no_loader 5 ''Tap'' 7 world1) =
       Returned (EngineOff 0 ''tap'' 0) \<and>
     ncallbacks (snd (addEventListener runtime0 plugin_no_loader 5 ''Tap'' 7 world1)) = 1 \<and>
     engine_calls (snd (addEventListener runtime0 plugin_no_loader 5 ''Tap'' 7 world1)) =
       [(OutsideAngular, New 0 5 None),
        (OutsideAngular, GetSet 0 ''pinch'' [(''enable'', JBool True)]),
        (OutsideAngular, GetSet 0 ''rotate'' [(''enable'', JBool True)]),
        (OutsideAngular, GetSet 0 ''swipe'' [(''velocity'', JNum 1)]),
        (OutsideAngular, GetSet 0 ''pinch'' [(''enable'', JBool False)]),
        (OutsideAngular, On 0 ''tap'' 0)] \<and>
     map_option engine_calls (invoke (EngineOff 0 ''tap'' 0) world1) =
       Some [(CallerZone, Off 0 ''tap'' 0)]"
    by (simp add: world1_fields loader_plugins config0_fields lower_Tap)
  from t2 r1 r2 n c b2
  have p2: "fst (addEventListener runtime0 plugin_with_loader 5 ''Tap'' 7 world0) =
       Returned (CallDeregister 0) \<and>
     engine_calls (settle runtime0 plugin_with_loader 0 Resolved world_loaded) =
       [(OutsideAngular, New 0 5 None),
        (OutsideAngular, GetSet 0 ''pinch'' [(''enable'', JBool True)]),
        (OutsideAngular, GetSet 0 ''rotate'' [(''enable'', JBool True)]),
        (OutsideAngular, GetSet 0 ''swipe'' [(''velocity'', JNum 1)]),
        (OutsideAngular, GetSet 0 ''pinch'' [(''enable'', JBool False)]),
        (OutsideAngular, On 0 ''tap'' 0)] \<and>
     map_option engine_calls
       (invoke (CallDeregister 0) (settle runtime0 plugin_with_loader 0 Resolved world_loaded)) =
       Some [(OutsideAngular, New 0 5 None),
        (OutsideAngular, GetSet 0 ''pinch'' [(''enable'', JBool True)]),
        (OutsideAngular, GetSet 0 ''rotate'' [(''enable'', JBool True)]),
        (OutsideAngular, GetSet 0 ''swipe'' [(''velocity'', JNum 1)]),
        (OutsideAngular, GetSet 0 ''pinch'' [(''enable'', JBool False)]),
        (OutsideAngular, On 0 ''tap'' 0),
        (CallerZone, Off 0 ''tap'' 0)]"
    by (simp add: world0_fields world_loaded_fields loader_plugins config0_fields lower_Tap
        lower_tap settle_zone)
  from p1 p2 r1 r2 n c b1 b2 world0_fields(1) loader_plugins(1)
  show ?thesis by simp
qed

text \<open>
  C9. Once a call is bound, the engine's table of the new instance holds, under the
  lowercased name, exactly the wrapped callback of the call; the wrapped callback, called
  with an event object, calls the handler once with that object inside \<open>runGuarded\<close>; and
  so every event the engine emits under that name adds exactly one invocation of the
  handler, with the emitted object, in the guarded zone. This holds for a call bound at
  once and for a deferred call bound when its loader resolves.
\<close>

theorem bound_handler_invoked_once_per_event:
  "(instances_known w \<and> builds rt (config p) el w \<longrightarrow>
      listeners (engine_calls (snd (addEventListener rt p el name h w)))
        (ninstances w) (toLowerCase rt name) = [ncallbacks w] \<and>
      callback_fn (ncallbacks w) e (snd (addEventListener rt p el name h w)) =
        (snd (addEventListener rt p el name h w))
          \<lparr>handler_calls := handler_calls w @ [(h, e, Guarded)]\<rparr> \<and>
      fold (emit (ninstances w) (toLowerCase rt name)) evs (snd (addEventListener rt p el name h w)) =
        (snd (addEventListener rt p el name h w))
          \<lparr>handler_calls := handler_calls w @ map (\<lambda>e. (h, e, Guarded)) evs\<rparr>) \<and>
   (instances_known w \<and> pending w r = Some (el, name, h) \<and> \<not> cancelRegistration w r \<and>
    builds rt (config p) el w \<longrightarrow>
      listeners (engine_calls (settle rt p r Resolved w))
        (ninstances w) (toLowerCase rt name) = [ncallbacks w] \<and>
      callback_fn (ncallbacks w) e (settle rt p r Resolved w) =
        (settle rt p r Resolved w)\<lparr>handler_calls := handler_calls w @ [(h, e, Guarded)]\<rparr> \<and>
      fold (emit (ninstances w) (toLowerCase rt name)) evs (settle rt p r Resolved w) =
        (settle rt p r Resolved w)
          \<lparr>handler_calls := handler_calls w @ map (\<lambda>e. (h, e, Guarded)) evs\<rparr>)"
proof (intro conjI impI)
  let ?w1 = "snd (addEventListener rt p el name h w)"
  assume a: "instances_known w \<and> builds rt (config p) el w"
  then have f: "engine_calls ?w1 = engine_calls w @ map (Pair OutsideAngular)
      (builder_calls (config p) (ninstances w) el @
       [On (ninstances w) (toLowerCase rt name) (ncallbacks w)])"
    "callbacks ?w1 (ncallbacks w) = h" "handler_calls ?w1 = handler_calls w"
    by (simp_all add: addEventListener_bound)
  from a show l: "listeners (engine_calls ?w1) (ninstances w) (toLowerCase rt name) = [ncallbacks w]"
    by (simp only: f listeners_after_bind)
  show "callback_fn (ncallbacks w) e ?w1 = ?w1\<lparr>handler_calls := handler_calls w @ [(h, e, Guarded)]\<rparr>"
    by (simp add: callback_fn_eq f)
  show "fold (emit (ninstances w) (toLowerCase rt name)) evs ?w1 =
        ?w1\<lparr>handler_calls := handler_calls w @ map (\<lambda>e. (h, e, Guarded)) evs\<rparr>"
    by (simp add: fold_emit l f(2,3))
next
  let ?w1 = "settle rt p r Resolved w"
  assume a: "instances_known w \<and> pending w r = Some (el, name, h) \<and> \<not> cancelRegistration w r \<and>
    builds rt (config p) el w"
  then have f: "engine_calls ?w1 = engine_calls w @ map (Pair OutsideAngular)
      (builder_calls (config p) (ninstances w) el @
       [On (ninstances w) (toLowerCase rt name) (ncallbacks w)])"
    "callbacks ?w1 (ncallbacks w) = h" "handler_calls ?w1 = handler_calls w"
    using settle_instances_callbacks[of w r el name h rt p] by simp_all
  from a show l: "listeners (engine_calls ?w1) (ninstances w) (toLowerCase rt name) = [ncallbacks w]"
    by (simp only: f listeners_after_bind)
  show "callback_fn (ncallbacks w) e ?w1 = ?w1\<lparr>handler_calls := handler_calls w @ [(h, e, Guarded)]\<rparr>"
    by (simp add: callback_fn_eq f)
  show "fold (emit (ninstances w) (toLowerCase rt name)) evs ?w1 =
        ?w1\<lparr>handler_calls := handler_calls w @ map (\<lambda>e. (h, e, Guarded)) evs\<rparr>"
    by (simp add: fold_emit l f(2,3))
qed

theorem bound_handler_invoked_once_per_event_witness:
  "instances_known world1 \<and> builds runtime0 (config plugin_no_loader) 5 world1 \<and>
   listeners (engine_calls (snd (addEventListener runtime0 plugin_no_loader 5 ''Tap'' 7 world1))) 0 ''tap'' = [0] \<and>
   handler_calls (callback_fn 0 3 (snd (addEventListener runtime0 plugin_no_loader 5 ''Tap'' 7 world1))) =
     [(7, 3, Guarded)] \<and>
   handler_calls (fold (emit 0 ''tap'') [3, 4]
      (snd (addEventListener runtime0 plugin_no_loader 5 ''Tap'' 7 world1))) =
     [(7, 3, Guarded), (7, 4, Guarded)] \<and>
   instances_known world_loaded \<and> pending world_loaded 0 = Some (5, ''tap'', 7) \<and>
   \<not> cancelRegistration world_loaded 0 \<and>
   builds runtime0 (config plugin_with_loader) 5 world_loaded \<and>
   listeners (engine_calls (settle runtime0 plugin_with_loader 0 Resolved world_loaded)) 0 ''tap'' = [0] \<and>
   handler_calls (callback_fn 0 3 (settle runtime0 plugin_with_loader 0 Resolved world_loaded)) =
     [(7, 3, Guarded)] \<and>
   handler_calls (fold (emit 0 ''tap'') [3, 4] (settle runtime0 plugin_with_loader 0 Resolved world_loaded)) =
     [(7, 3, Guarded), (7, 4, Guarded)]"
proof -
  have b1: "builds runtime0 (config plugin_no_loader) 5 world1"
    by (simp add: loader_plugins builds_config0 world1_fields)
  have b2: "builds runtime0 (config plugin_with_loader) 5 world_loaded"
    by (simp add: loader_plugins builds_config0 world_loaded_fields)
  note t1 = bound_handler_invoked_once_per_event[where rt = runtime0 and w = world1
      and el = 5 and p = plugin_no_loader and name = "''Tap''" and h = 7 and e = 3
      and evs = "[3, 4]", THEN conjunct1]
  note t2 = bound_handler_invoked_once_per_event[where rt = runtime0 and w = world_loaded
      and el = 5 and p = plugin_with_loader and name = "''tap''" and h = 7 and e = 3
      and evs = "[3, 4]" and r = 0, THEN conjunct2]
  from t1 b1 have p1:
    "listeners (engine_calls (snd (addEventListener runtime0 plugin_no_loader 5 ''Tap'' 7 world1))) 0 ''tap'' = [0] \<and>
     handler_calls (callback_fn 0 3 (snd (addEventListener runtime0 plugin_no_loader 5 ''Tap'' 7 world1))) =
       [(7, 3, Guarded)] \<and>
     handler_calls (fold (emit 0 ''tap'') [3, 4]
        (snd (addEventListener runtime0 plugin_no_loader 5 ''Tap'' 7 world1))) =
       [(7, 3, Guarded), (7, 4, Guarded)]"
    by (simp add: instances_known_examples world1_fields lower_Tap)
  from t2 b2 have p2:
    "listeners (engine_calls (settle runtime0 plugin_with_loader 0 Resolved world_loaded)) 0 ''tap'' = [0] \<and>
     handler_calls (callback_fn 0 3 (settle runtime0 plugin_with_loader 0 Resolved world_loaded)) =
       [(7, 3, Guarded)] \<and>
     handler_calls (fold (emit 0 ''tap'') [3, 4] (settle runtime0 plugin_with_loader 0 Resolved world_loaded)) =
       [(7, 3, Guarded), (7, 4, Guarded)]"
    by (simp add: instances_known_examples world_loaded_fields lower_tap)
  from p1 p2 b1 b2 show ?thesis
    by (simp add: instances_known_examples world1_fields world_loaded_fields)
qed

text \<open>
  C10. The name is lowercased first, on every path. A call bound at once gives \<open>on\<close> the
  lowercased name, and its deregistration function gives \<open>off\<close> the lowercased name. A
  deferred call keeps the lowercased name for its continuations; when it is bound later the
  inner call lowercases that name once more, so \<open>on\<close> and \<open>off\<close> get the lowercased name
  lowercased again, which is the lowercased name itself whenever lowercasing leaves it as it
  is. A name that \<open>supports\<close> accepted only because the custom list holds it letter for
  letter is therefore bound under another string whenever lowercasing changes it.
\<close>

theorem bound_name_is_lowercased:
  "(builds rt (config p) el w \<longrightarrow>
      last (engine_calls (snd (addEventListener rt p el name h w))) =
        (OutsideAngular, On (ninstances w) (toLowerCase rt name) (ncallbacks w)) \<and>
      (\<forall>d. fst (addEventListener rt p el name h w) = Returned d \<longrightarrow>
         removal d w' = Some (ninstances w, toLowerCase rt name, ncallbacks w))) \<and>
   (Hammer w = None \<and> loader p \<longrightarrow>
      pending (snd (addEventListener rt p el name h w)) (nregistrations w) =
        Some (el, toLowerCase rt name, h)) \<and>
   (Hammer w = None \<and> loader p \<and>
    run rt p as (snd (addEventListener rt p el name h w)) = Some w2 \<and>
    (\<forall>out. Settle (nregistrations w) out \<notin> set as) \<and>
    \<not> cancelRegistration w2 (nregistrations w) \<and> builds rt (config p) el w2 \<and>
    run rt p bs (settle rt p (nregistrations w) Resolved w2) = Some w4 \<longrightarrow>
      last (engine_calls (settle rt p (nregistrations w) Resolved w2)) =
        (OutsideAngular,
         On (ninstances w2) (toLowerCase rt (toLowerCase rt name)) (ncallbacks w2)) \<and>
      (\<forall>d. fst (addEventListener rt p el name h w) = Returned d \<longrightarrow>
         removal d w4 =
           Some (ninstances w2, toLowerCase rt (toLowerCase rt name), ncallbacks w2)) \<and>
      (toLowerCase rt (toLowerCase rt name) = toLowerCase rt name \<longrightarrow>
         last (engine_calls (settle rt p (nregistrations w) Resolved w2)) =
           (OutsideAngular, On (ninstances w2) (toLowerCase rt name) (ncallbacks w2)) \<and>
         (\<forall>d. fst (addEventListener rt p el name h w) = Returned d \<longrightarrow>
            removal d w4 = Some (ninstances w2, toLowerCase rt name, ncallbacks w2)))) \<and>
   (name \<in> set (events (config p)) \<and> toLowerCase rt name \<notin> set EVENT_NAMES \<and>
    toLowerCase rt name \<noteq> name \<and> builds rt (config p) el w \<longrightarrow>
      fst (supports rt p name w) \<and>
      last (engine_calls (snd (addEventListener rt p el name h w))) \<noteq>
        (OutsideAngular, On (ninstances w) name (ncallbacks w)) \<and>
      (toLowerCase rt name \<notin> set (events (config p)) \<and>
       toLowerCase rt (toLowerCase rt name) \<notin> set EVENT_NAMES \<longrightarrow>
         \<not> fst (supports rt p (toLowerCase rt name) w)))"
proof -
  have direct: "last (engine_calls (snd (addEventListener rt p el name h w))) =
        (OutsideAngular, On (ninstances w) (toLowerCase rt name) (ncallbacks w)) \<and>
      (\<forall>d. fst (addEventListener rt p el name h w) = Returned d \<longrightarrow>
         removal d w' = Some (ninstances w, toLowerCase rt name, ncallbacks w))"
    if "builds rt (config p) el w"
    using that by (auto simp: addEventListener_bound removal_def)
  have kept: "pending (snd (addEventListener rt p el name h w)) (nregistrations w) =
        Some (el, toLowerCase rt name, h)"
    if "Hammer w = None \<and> loader p"
    using that by (simp add: addEventListener_deferred)
  have later: "last (engine_calls (settle rt p (nregistrations w) Resolved w2)) =
        (OutsideAngular,
         On (ninstances w2) (toLowerCase rt (toLowerCase rt name)) (ncallbacks w2)) \<and>
      (\<forall>d. fst (addEventListener rt p el name h w) = Returned d \<longrightarrow>
         removal d w4 =
           Some (ninstances w2, toLowerCase rt (toLowerCase rt name), ncallbacks w2))"
    if b: "Hammer w = None \<and> loader p \<and>
      run rt p as (snd (addEventListener rt p el name h w)) = Some w2 \<and>
      (\<forall>out. Settle (nregistrations w) out \<notin> set as) \<and>
      \<not> cancelRegistration w2 (nregistrations w) \<and> builds rt (config p) el w2 \<and>
      run rt p bs (settle rt p (nregistrations w) Resolved w2) = Some w4"
  proof -
    let ?r = "nregistrations w"
    let ?n = "toLowerCase rt (toLowerCase rt name)"
    from b have d: "nregistrations w < nregistrations w2"
      "pending w2 ?r = Some (el, toLowerCase rt name, h)"
      using deferred_then_run[where w = w and p = p and rt = rt and as = as and el = el
          and name = name and h = h and ?w2.0 = w2] by simp_all
    from b d have s: "settle rt p ?r Resolved w2 =
       w2\<lparr>pending := (pending w2)(?r := None),
         ninstances := ninstances w2 + 1,
         ncallbacks := ncallbacks w2 + 1,
         callbacks := (callbacks w2)(ncallbacks w2 := h),
         engine_calls := engine_calls w2 @
            map (Pair OutsideAngular)
              (builder_calls (config p) (ninstances w2) el @
               [On (ninstances w2) ?n (ncallbacks w2)]),
         deregister := (deregister w2)(?r := EngineOff (ninstances w2) ?n (ncallbacks w2))\<rparr>"
      using settle_bound[of w2 ?r el "toLowerCase rt name" h rt p] by simp
    have l: "last (engine_calls (settle rt p ?r Resolved w2)) =
        (OutsideAngular, On (ninstances w2) ?n (ncallbacks w2))"
      by (simp add: s)
    from b have r4: "run rt p bs (settle rt p ?r Resolved w2) = Some w4" by simp
    have "deregister w4 ?r = deregister (settle rt p ?r Resolved w2) ?r"
      using settled_then_run[OF r4] d(1) by (simp add: s)
    then have c: "deregister w4 ?r = EngineOff (ninstances w2) ?n (ncallbacks w2)"
      by (simp add: s)
    have "removal d w4 = Some (ninstances w2, ?n, ncallbacks w2)"
      if "fst (addEventListener rt p el name h w) = Returned d" for d
    proof -
      from that b have "d = CallDeregister ?r" by (simp add: addEventListener_deferred)
      with c show ?thesis by (simp add: removal_def)
    qed
    with l show ?thesis by blast
  qed
  have fixed: "last (engine_calls (settle rt p (nregistrations w) Resolved w2)) =
        (OutsideAngular, On (ninstances w2) (toLowerCase rt name) (ncallbacks w2)) \<and>
      (\<forall>d. fst (addEventListener rt p el name h w) = Returned d \<longrightarrow>
         removal d w4 = Some (ninstances w2, toLowerCase rt name, ncallbacks w2))"
    if b: "Hammer w = None \<and> loader p \<and>
      run rt p as (snd (addEventListener rt p el name h w)) = Some w2 \<and>
      (\<forall>out. Settle (nregistrations w) out \<notin> set as) \<and>
      \<not> cancelRegistration w2 (nregistrations w) \<and> builds rt (config p) el w2 \<and>
      run rt p bs (settle rt p (nregistrations w) Resolved w2) = Some w4"
      and i: "toLowerCase rt (toLowerCase rt name) = toLowerCase rt name"
    using later[OF b] unfolding i .
  have custom: "fst (supports rt p name w) \<and>
      last (engine_calls (snd (addEventListener rt p el name h w))) \<noteq>
        (OutsideAngular, On (ninstances w) name (ncallbacks w)) \<and>
      (toLowerCase rt name \<notin> set (events (config p)) \<and>
       toLowerCase rt (toLowerCase rt name) \<notin> set EVENT_NAMES \<longrightarrow>
         \<not> fst (supports rt p (toLowerCase rt name) w))"
    if c: "name \<in> set (events (config p)) \<and> toLowerCase rt name \<notin> set EVENT_NAMES \<and>
      toLowerCase rt name \<noteq> name \<and> builds rt (config p) el w"
  proof -
    from c have "Hammer w \<noteq> None" by (auto simp: builds_def split: option.splits)
    with c have 1: "fst (supports rt p name w)"
      by (simp add: supports_def isCustomEvent_iff)
    from c have 2: "last (engine_calls (snd (addEventListener rt p el name h w))) \<noteq>
        (OutsideAngular, On (ninstances w) name (ncallbacks w))"
      by (simp add: addEventListener_bound)
    have 3: "toLowerCase rt name \<notin> set (events (config p)) \<and>
       toLowerCase rt (toLowerCase rt name) \<notin> set EVENT_NAMES \<longrightarrow>
         \<not> fst (supports rt p (toLowerCase rt name) w)"
      by (simp add: supports_def isCustomEvent_iff hasOwnProperty_def)
    from 1 2 3 show ?thesis by blast
  qed
  show ?thesis
  proof (intro conjI)
    show "builds rt (config p) el w \<longrightarrow>
      last (engine_calls (snd (addEventListener rt p el name h w))) =
        (OutsideAngular, On (ninstances w) (toLowerCase rt name) (ncallbacks w)) \<and>
      (\<forall>d. fst (addEventListener rt p el name h w) = Returned d \<longrightarrow>
         removal d w' = Some (ninstances w, toLowerCase rt name, ncallbacks w))"
      using direct by blast
  next
    show "Hammer w = None \<and> loader p \<longrightarrow>
      pending (snd (addEventListener rt p el name h w)) (nregistrations w) =
        Some (el, toLowerCase rt name, h)"
      using kept by blast
  next
    show "Hammer w = None \<and> loader p \<and>
      run rt p as (snd (addEventListener rt p el name h w)) = Some w2 \<and>
      (\<forall>out. Settle (nregistrations w) out \<notin> set as) \<and>
      \<not> cancelRegistration w2 (nregistrations w) \<and> builds rt (config p) el w2 \<and>
      run rt p bs (settle rt p (nregistrations w) Resolved w2) = Some w4 \<longrightarrow>
        last (engine_calls (settle rt p (nregistrations w) Resolved w2)) =
          (OutsideAngular,
           On (ninstances w2) (toLowerCase rt (toLowerCase rt name)) (ncallbacks w2)) \<and>
        (\<forall>d. fst (addEventListener rt p el name h w) = Returned d \<longrightarrow>
           removal d w4 =
             Some (ninstances w2, toLowerCase rt (toLowerCase rt name), ncallbacks w2)) \<and>
        (toLowerCase rt (toLowerCase rt name) = toLowerCase rt name \<longrightarrow>
           last (engine_calls (settle rt p (nregistrations w) Resolved w2)) =
             (OutsideAngular, On (ninstances w2) (toLowerCase rt name) (ncallbacks w2)) \<and>
           (\<forall>d. fst (addEventListener rt p el name h w) = Returned d \<longrightarrow>
              removal d w4 = Some (ninstances w2, toLowerCase rt name, ncallbacks w2)))"
    proof
      assume b: "Hammer w = None \<and> loader p \<and>
        run rt p as (snd (addEventListener rt p el name h w)) = Some w2 \<and>
        (\<forall>out. Settle (nregistrations w) out \<notin> set as) \<and>
        \<not> cancelRegistration w2 (nregistrations w) \<and> builds rt (config p) el w2 \<and>
        run rt p bs (settle rt p (nregistrations w) Resolved w2) = Some w4"
      from later[OF b] fixed[OF b] show "last (engine_calls (settle rt p (nregistrations w) Resolved w2)) =
          (OutsideAngular,
           On (ninstances w2) (toLowerCase rt (toLowerCase rt name)) (ncallbacks w2)) \<and>
        (\<forall>d. fst (addEventListener rt p el name h w) = Returned d \<longrightarrow>
           removal d w4 =
             Some (ninstances w2, toLowerCase rt (toLowerCase rt name), ncallbacks w2)) \<and>
        (toLowerCase rt (toLowerCase rt name) = toLowerCase rt name \<longrightarrow>
           last (engine_calls (settle rt p (nregistrations w) Resolved w2)) =
             (OutsideAngular, On (ninstances w2) (toLowerCase rt name) (ncallbacks w2)) \<and>
           (\<forall>d. fst (addEventListener rt p el name h w) = Returned d \<longrightarrow>
              removal d w4 = Some (ninstances w2, toLowerCase rt name, ncallbacks w2)))"
        by blast
    qed
  next
    show "name \<in> set (events (config p)) \<and> toLowerCase rt name \<notin> set EVENT_NAMES \<and>
      toLowerCase rt name \<noteq> name \<and> builds rt (config p) el w \<longrightarrow>
        fst (supports rt p name w) \<and>
        last (engine_calls (snd (addEventListener rt p el name h w))) \<noteq>
          (OutsideAngular, On (ninstances w) name (ncallbacks w)) \<and>
        (toLowerCase rt name \<notin> set (events (config p)) \<and>
         toLowerCase rt (toLowerCase rt name) \<notin> set EVENT_NAMES \<longrightarrow>
           \<not> fst (supports rt p (toLowerCase rt name) w))"
      using custom by blast
  qed
qed

theorem bound_name_is_lowercased_witness:
  "builds runtime0 (config plugin_no_loader) 5 world1 \<and>
   ''MyEvent'' \<in> set (events (config plugin_no_loader)) \<and>
   toLowerCase runtime0 ''MyEvent'' \<notin> set EVENT_NAMES \<and> toLowerCase runtime0 ''MyEvent'' \<noteq> ''MyEvent'' \<and>
   toLowerCase runtime0 ''MyEvent'' \<notin> set (events (config plugin_no_loader)) \<and>
   toLowerCase runtime0 (toLowerCase runtime0 ''MyEvent'') \<notin> set EVENT_NAMES \<and>
   fst (supports runtime0 plugin_no_loader ''MyEvent'' world1) \<and>
   \<not> fst (supports runtime0 plugin_no_loader ''myevent'' world1) \<and>
   fst (addEventListener runtime0 plugin_no_loader 5 ''MyEvent'' 7 world1) =
     Returned (EngineOff 0 ''myevent'' 0) \<and>
   last (engine_calls (snd (addEventListener runtime0 plugin_no_loader 5 ''MyEvent'' 7 world1))) =
     (OutsideAngular, On 0 ''myevent'' 0) \<and>
   removal (EngineOff 0 ''myevent'' 0) world1 = Some (0, ''myevent'', 0) \<and>
   Hammer world0 = None \<and> loader plugin_with_loader \<and>
   pending (snd (addEventListener runtime0 plugin_with_loader 5 ''Tap'' 7 world0)) 0 = Some (5, ''tap'', 7) \<and>
   run runtime0 plugin_with_loader [SetHammer (Some (\<lambda>_ _. True))]
     (snd (addEventListener runtime0 plugin_with_loader 5 ''Tap'' 7 world0)) = Some world_loaded \<and>
   (\<forall>out. Settle (nregistrations world0) out \<notin> set [SetHammer (Some (\<lambda>_ _. True))]) \<and>
   \<not> cancelRegistration world_loaded (nregistrations world0) \<and>
   builds runtime0 (config plugin_with_loader) 5 world_loaded \<and>
   toLowerCase runtime0 (toLowerCase runtime0 ''Tap'') = toLowerCase runtime0 ''Tap'' \<and>
   run runtime0 plugin_with_loader [] (settle runtime0 plugin_with_loader (nregistrations world0) Resolved world_loaded) =
     Some (settle runtime0 plugin_with_loader 0 Resolved world_loaded) \<and>
   fst (addEventListener runtime0 plugin_with_loader 5 ''Tap'' 7 world0) = Returned (CallDeregister 0) \<and>
   last (engine_calls (settle runtime0 plugin_with_loader 0 Resolved world_loaded)) =
     (OutsideAngular, On 0 ''tap'' 0) \<and>
   removal (CallDeregister 0) (settle runtime0 plugin_with_loader 0 Resolved world_loaded) =
     Some (0, ''tap'', 0)"
proof -
  have r1: "run runtime0 plugin_with_loader [SetHammer (Some (\<lambda>_ _. True))]
     (snd (addEventListener runtime0 plugin_with_loader 5 ''Tap'' 7 world0)) = Some world_loaded"
    by (simp add: world_loaded_def world_deferred_def)
  have r2: "run runtime0 plugin_with_loader []
     (settle runtime0 plugin_with_loader (nregistrations world0) Resolved world_loaded) =
     Some (settle runtime0 plugin_with_loader 0 Resolved world_loaded)"
    by (simp add: world0_fields)
  have n: "\<forall>out. Settle (nregistrations world0) out \<notin> set [SetHammer (Some (\<lambda>_ _. True))]"
    by simp
  have c: "\<not> cancelRegistration world_loaded (nregistrations world0)"
    by (simp add: world0_fields world_loaded_fields)
  have m: "''MyEvent'' \<in> set (events (config plugin_no_loader))"
    "toLowerCase runtime0 ''MyEvent'' \<notin> set EVENT_NAMES" "toLowerCase runtime0 ''MyEvent'' \<noteq> ''MyEvent''"
    "toLowerCase runtime0 ''MyEvent'' \<notin> set (events (config plugin_no_loader))"
    "toLowerCase runtime0 (toLowerCase runtime0 ''MyEvent'') \<notin> set EVENT_NAMES"
    by (simp_all add: loader_plugins config0_fields lower_MyEvent lower_myevent
        lower_myevent_not_fixed)
  have i: "toLowerCase runtime0 (toLowerCase runtime0 ''Tap'') = toLowerCase runtime0 ''Tap''"
    by (simp add: lower_Tap lower_tap)
  have b1: "builds runtime0 (config plugin_no_loader) 5 world1"
    by (simp add: loader_plugins builds_config0 world1_fields)
  have b2: "builds runtime0 (config plugin_with_loader) 5 world_loaded"
    by (simp add: loader_plugins builds_config0 world_loaded_fields)
  have a1: "fst (addEventListener runtime0 plugin_no_loader 5 ''MyEvent'' 7 world1) =
     Returned (EngineOff 0 ''myevent'' 0)"
    by (simp add: addEventListener_bound[OF b1] world1_fields lower_MyEvent)
  have a2: "fst (addEventListener runtime0 plugin_with_loader 5 ''Tap'' 7 world0) = Returned (CallDeregister 0)"
    by (simp add: addEventListener_deferred world0_fields loader_plugins)
  note t = bound_name_is_lowercased[where rt = runtime0 and w = world1 and el = 5
      and p = plugin_no_loader and name = "''MyEvent''" and h = 7 and w' = world1]
  note u = bound_name_is_lowercased[where rt = runtime0 and w = world0 and el = 5
      and p = plugin_with_loader and name = "''Tap''" and h = 7
      and as = "[SetHammer (Some (\<lambda>_ _. True))]" and ?w2.0 = world_loaded and bs = "[]"
      and ?w4.0 = "settle runtime0 plugin_with_loader 0 Resolved world_loaded"]
  from t m a1 b1 have p1:
    "fst (supports runtime0 plugin_no_loader ''MyEvent'' world1) \<and>
     \<not> fst (supports runtime0 plugin_no_loader ''myevent'' world1) \<and>
     last (engine_calls (snd (addEventListener runtime0 plugin_no_loader 5 ''MyEvent'' 7 world1))) =
       (OutsideAngular, On 0 ''myevent'' 0) \<and>
     removal (EngineOff 0 ''myevent'' 0) world1 = Some (0, ''myevent'', 0)"
    by (simp add: world1_fields lower_MyEvent lower_myevent)
  from u r1 r2 n c a2 b2 i have p2:
    "pending (snd (addEventListener runtime0 plugin_with_loader 5 ''Tap'' 7 world0)) 0 = Some (5, ''tap'', 7) \<and>
     last (engine_calls (settle runtime0 plugin_with_loader 0 Resolved world_loaded)) =
       (OutsideAngular, On 0 ''tap'' 0) \<and>
     removal (CallDeregister 0) (settle runtime0 plugin_with_loader 0 Resolved world_loaded) =
       Some (0, ''tap'', 0)"
    by (simp add: world0_fields world_loaded_fields loader_plugins lower_Tap lower_tap)
  from p1 p2 r1 r2 n c m i b1 b2 a1 a2 world0_fields(1) loader_plugins(1)
  show ?thesis by simp
qed

end
